theory Spec2Isabelle
  imports Complex_Main "HOL-Library.Multiset"
begin

unbundle bit_operations_syntax

section \<open>The pandas benchmark companion (bench/pandas\_compare.py)\<close>

text \<open>
  Conventions of the embedding.
  \<^item> Python integers are \<open>int\<close>; \<open>%\<close> is \<open>mod\<close> (both round towards minus infinity)
    and \<open>&\<close> is \<open>AND\<close> (both read a negative number in two's complement).
  \<^item> A Python float is modelled by the rational number it stands for, with exact
    arithmetic. The quotient \<open>state / 2**32\<close> and the products and sums the generator's
    output goes through before it is truncated or rounded are exact in binary64 as well
    (they need at most 42 bits), so nothing is idealised up to that point; \<open>round(x, 2)\<close>
    is Python's rounding to two decimals, ties to the even neighbour, and its result
    stands for the decimal number and not for the binary64 value next to it.
  \<^item> The variable \<open>state\<close> that the closure \<open>rnd\<close> captures is a cell of an explicit store:
    every call of \<open>lcg\<close> allocates a fresh cell, and \<open>rnd\<close> reads and writes its own cell.
  \<^item> Exceptions are values: a function that can raise returns \<open>py_error + 'a\<close>.
\<close>

subsection \<open>The sequence generator\<close>

type_synonym store = "int list"

text \<open>\<open>lcg(seed)\<close>: the new closure is known by the address of its cell.\<close>

definition lcg :: "int \<Rightarrow> store \<Rightarrow> nat \<times> store" where
  "lcg seed s = (length s, s @ [seed AND 4294967295])"

text \<open>\<open>rnd()\<close> of the closure at address \<open>g\<close>; 4294967295 is \<open>0xFFFFFFFF\<close>.\<close>

definition rnd :: "nat \<Rightarrow> store \<Rightarrow> rat \<times> store" where
  "rnd g s =
     (let state = (1664525 * (s ! g) + 1013904223) AND 4294967295
      in (of_int state / 2 ^ 32, s[g := state]))"

subsection \<open>Built-ins the dataset uses\<close>

text \<open>\<open>int(x)\<close> of a float truncates towards zero.\<close>

definition py_int :: "rat \<Rightarrow> int" where
  "py_int x = (if 0 \<le> x then \<lfloor>x\<rfloor> else \<lceil>x\<rceil>)"

text \<open>The nearest integer, ties to the even one.\<close>

definition round_half_even :: "rat \<Rightarrow> int" where
  "round_half_even y =
     (let f = \<lfloor>y\<rfloor>; d = y - of_int f
      in if d < 1 / 2 then f else if 1 / 2 < d then f + 1 else if even f then f else f + 1)"

text \<open>\<open>round(x, 2)\<close>.\<close>

definition py_round2 :: "rat \<Rightarrow> rat" where
  "py_round2 x = of_int (round_half_even (x * 100)) / 100"

text \<open>\<open>range(n)\<close>; empty when \<open>n \<le> 0\<close>.\<close>

definition py_range :: "int \<Rightarrow> int list" where
  "py_range n = map int [0..<nat n]"

text \<open>The decimal digits of a number, as an f-string writes an integer.\<close>

definition digit_char :: "nat \<Rightarrow> char" where
  "digit_char d = char_of (48 + d)"

function str_nat :: "nat \<Rightarrow> string" where
  "str_nat n = (if n < 10 then [digit_char n] else str_nat (n div 10) @ [digit_char (n mod 10)])"
  by pat_completeness auto
termination
  by (relation "measure (\<lambda>n. n)") auto

declare str_nat.simps [simp del]

definition str_int :: "int \<Rightarrow> string" where
  "str_int i = (if i < 0 then CHR ''-'' # str_nat (nat (- i)) else str_nat (nat i))"

subsection \<open>Rows and the dataset\<close>

text \<open>
  A row is the dictionary the loop builds: the eleven fixed keys, in this order, and after
  them the keys \<open>extra_0\<close> to \<open>extra_9\<close> when \<open>wide\<close> is set (kept as a list of pairs, in
  insertion order). \<open>None\<close> in \<open>city\<close> and \<open>segment\<close> is \<open>None\<close> of the option type.
\<close>

record row =
  row_id :: int
  row_group :: string
  row_city :: "string option"
  row_segment :: "string option"
  row_value :: int
  row_weight :: rat
  row_revenue :: rat
  row_active :: bool
  row_bucket :: string
  row_user_key :: string
  row_session_key :: string
  row_extra :: "(string \<times> int) list"

definition groups :: "string list" where
  "groups = [''A'', ''B'', ''C'', ''D'', ''E'', ''F'']"

definition cities :: "string list" where
  "cities = [''Austin'', ''Seattle'', ''Boston'', ''Denver'', ''Miami'']"

definition segments :: "string list" where
  "segments = [''consumer'', ''enterprise'', ''startup'']"

text \<open>
  The dictionary of one iteration, from the index and the two numbers drawn for it. The
  list subscripts are in range: the index is reduced modulo the length of the list, which
  is positive.
\<close>

definition dataset_row :: "bool \<Rightarrow> bool \<Rightarrow> bool \<Rightarrow> bool \<Rightarrow> int \<Rightarrow> int \<Rightarrow> rat \<Rightarrow> row" where
  "dataset_row skew wide high_cardinality include_missing idx val weight =
     \<lparr> row_id = idx,
       row_group = (if skew \<and> idx mod 100 < 70 then ''A''
                    else groups ! nat (idx mod int (length groups))),
       row_city = (if include_missing \<and> idx mod 23 = 0 then None
                   else Some (cities ! nat (idx mod int (length cities)))),
       row_segment = (if include_missing \<and> idx mod 31 = 0 then None
                      else Some (segments ! nat (idx mod int (length segments)))),
       row_value = val,
       row_weight = weight,
       row_revenue = py_round2 (of_int val * weight),
       row_active = (idx mod 3 = 0),
       row_bucket = (if val > 700 then ''high'' else if val > 350 then ''mid'' else ''low''),
       row_user_key = (if high_cardinality then ''u_'' @ str_int idx
                       else ''u_'' @ str_int (idx mod 120)),
       row_session_key = (if high_cardinality then ''s_'' @ str_int (idx * 7)
                          else ''s_'' @ str_int (idx mod 300)),
       row_extra = (if wide
                    then map (\<lambda>i. (''extra_'' @ str_int i, (val + i) mod (50 + i))) (py_range 10)
                    else []) \<rparr>"

text \<open>The loop over \<open>range(row_count)\<close>: two draws per row, the row appended to \<open>rows\<close>.\<close>

fun build_rows ::
  "bool \<Rightarrow> bool \<Rightarrow> bool \<Rightarrow> bool \<Rightarrow> nat \<Rightarrow> int list \<Rightarrow> row list \<Rightarrow> store \<Rightarrow> row list \<times> store"
where
  "build_rows skew wide high_cardinality include_missing g [] rows s = (rows, s)"
| "build_rows skew wide high_cardinality include_missing g (idx # rest) rows s =
     (let (r1, s1) = rnd g s;
          val = py_int (r1 * 1000);
          (r2, s2) = rnd g s1;
          weight = py_round2 (r2 * 5 + 1 / 2)
      in build_rows skew wide high_cardinality include_missing g rest
           (rows @ [dataset_row skew wide high_cardinality include_missing idx val weight]) s2)"

text \<open>
  \<open>build_dataset\<close>; the data frame made of the rows is the list of the rows. The store is
  the one the call starts in, and the call returns the store it leaves.
\<close>

definition build_dataset ::
  "int \<Rightarrow> bool \<Rightarrow> bool \<Rightarrow> bool \<Rightarrow> bool \<Rightarrow> store \<Rightarrow> row list \<times> store" where
  "build_dataset row_count skew wide high_cardinality include_missing s =
     (let (g, s0) = lcg 42 s
      in build_rows skew wide high_cardinality include_missing g (py_range row_count) [] s0)"

subsection \<open>The environment of a run\<close>

text \<open>
  The operations under test are pandas expressions and the clock is the system's: neither
  is part of the repository. A run is sequential, so whatever they do in it is told by
  the results of the successive invocations and the successive readings of the clock. The
  environment gives both by their ordinal in the run: the result of the invocation of a
  case's expression on a data frame that \<open>k\<close> invocations precede (\<open>None\<close> is Python's
  \<open>None\<close>), and the \<open>k\<close>-th reading of \<open>time.perf_counter()\<close>. It also gives the text of
  the time stamp and whether the directories and the file of a path can be made.
\<close>

record env =
  fn_result :: "string \<Rightarrow> row list \<Rightarrow> nat \<Rightarrow> int option"
  perf_counter_reading :: "nat \<Rightarrow> rat"
  utc_now :: string
  fs_ok :: "string \<Rightarrow> bool"

datatype event = Invoked string "int option" | Clock_read

datatype py_error =
    RuntimeError string
  | ZeroDivisionError
  | KeyError string
  | FileNotFoundError string
  | OSError string

record bench_result =
  res_case :: string
  res_dataset :: string
  res_avg_ms :: rat
  res_round_averages :: "rat list"

record payload =
  generatedAt :: string
  p_rows :: int
  p_iterations :: int
  p_rounds :: int
  p_cases :: int
  p_results :: "bench_result list"

text \<open>
  What a run changes: the invocations and clock readings made so far, in order; the cells
  of the generators; the files written (path and content, the JSON text standing for the
  payload it serialises); the lines printed.
\<close>

record world =
  trace :: "event list"
  cells :: store
  written :: "(string \<times> payload) list"
  stdout :: "string list"

type_synonym 'a action = "world \<Rightarrow> 'a \<times> world"

fun is_invocation :: "event \<Rightarrow> bool" where
  "is_invocation (Invoked name out) = True"
| "is_invocation Clock_read = False"

definition n_invocations :: "event list \<Rightarrow> nat" where
  "n_invocations t = length (filter is_invocation t)"

definition n_clock_reads :: "event list \<Rightarrow> nat" where
  "n_clock_reads t = length (filter (\<lambda>e. \<not> is_invocation e) t)"

text \<open>The callable \<open>lambda c=case, d=df: c["fn"](d)\<close> of the case called \<open>name\<close>.\<close>

definition invoke :: "env \<Rightarrow> string \<Rightarrow> row list \<Rightarrow> int option action" where
  "invoke e name df w =
     (let out = fn_result e name df (n_invocations (trace w))
      in (out, w\<lparr>trace := trace w @ [Invoked name out]\<rparr>))"

text \<open>\<open>time.perf_counter()\<close>.\<close>

definition perf_counter :: "env \<Rightarrow> rat action" where
  "perf_counter e w =
     (perf_counter_reading e (n_clock_reads (trace w)), w\<lparr>trace := trace w @ [Clock_read]\<rparr>)"

subsection \<open>The timing harness\<close>

text \<open>The first loop of \<open>run_case\<close>: \<open>for _ in range(3): fn()\<close>.\<close>

fun warmup :: "nat \<Rightarrow> int option action \<Rightarrow> world \<Rightarrow> world" where
  "warmup 0 fn w = w"
| "warmup (Suc n) fn w = warmup n fn (snd (fn w))"

definition none_message :: "string \<Rightarrow> string" where
  "none_message name = ''case '' @ [CHR 0x27] @ name @ [CHR 0x27] @ '' returned None''"

text \<open>The second loop, \<open>for _ in range(iterations)\<close>, with the list \<open>times\<close> (here \<open>tms\<close>).\<close>

fun timed_loop ::
  "env \<Rightarrow> string \<Rightarrow> int option action \<Rightarrow> nat \<Rightarrow> rat list \<Rightarrow> world \<Rightarrow> (py_error + rat list) \<times> world"
where
  "timed_loop e name fn 0 tms w = (Inr tms, w)"
| "timed_loop e name fn (Suc n) tms w =
     (let (start, w1) = perf_counter e w;
          (out, w2) = fn w1
      in case out of
           None \<Rightarrow> (Inl (RuntimeError (none_message name)), w2)
         | Some v \<Rightarrow>
             (let (stop, w3) = perf_counter e w2
              in timed_loop e name fn n (tms @ [(stop - start) * 1000]) w3))"

text \<open>\<open>run_case\<close>; \<open>sum(times) / len(times)\<close> raises when \<open>times\<close> is empty.\<close>

definition run_case ::
  "env \<Rightarrow> string \<Rightarrow> int option action \<Rightarrow> int \<Rightarrow> world \<Rightarrow> (py_error + rat) \<times> world" where
  "run_case e name fn iterations w =
     (case timed_loop e name fn (nat iterations) [] (warmup 3 fn w) of
        (Inl err, w1) \<Rightarrow> (Inl err, w1)
      | (Inr tms, w1) \<Rightarrow>
          (if length tms = 0 then (Inl ZeroDivisionError, w1)
           else (Inr (sum_list tms / of_nat (length tms)), w1)))"

text \<open>\<open>median\<close>; \<open>sorted\<close> is the sorting function of the library.\<close>

definition median :: "rat list \<Rightarrow> rat" where
  "median values =
     (if values = [] then 0
      else (let vs = sort values; mid = length vs div 2
            in if length vs mod 2 = 1 then vs ! mid else (vs ! (mid - 1) + vs ! mid) / 2))"

subsection \<open>The run\<close>

record args =
  arg_rows :: int
  arg_iters :: int
  arg_rounds :: int
  arg_json_out :: string

text \<open>
  A case of the list \<open>cases\<close>: its name and the name of its dataset. Its third entry, the
  pandas expression, is the environment's \<open>fn_result\<close> at the name.
\<close>

record bench_case =
  case_name :: string
  case_dataset :: string

definition cases :: "bench_case list" where
  "cases =
     [\<lparr>case_name = ''groupby_mean'', case_dataset = ''base''\<rparr>,
      \<lparr>case_name = ''filter_sort_top100'', case_dataset = ''base''\<rparr>,
      \<lparr>case_name = ''sort_top1000'', case_dataset = ''base''\<rparr>,
      \<lparr>case_name = ''sort_multicol_top800'', case_dataset = ''base''\<rparr>,
      \<lparr>case_name = ''value_counts_city'', case_dataset = ''base''\<rparr>,
      \<lparr>case_name = ''value_counts_group_city_top10'', case_dataset = ''base''\<rparr>,
      \<lparr>case_name = ''value_counts_missing_city_dropna_false'', case_dataset = ''missing''\<rparr>,
      \<lparr>case_name = ''groupby_missing_city_mean'', case_dataset = ''missing''\<rparr>,
      \<lparr>case_name = ''value_counts_high_card_city_top20'', case_dataset = ''high_card''\<rparr>,
      \<lparr>case_name = ''value_counts_high_card_user_top100'', case_dataset = ''high_card''\<rparr>]"

text \<open>The loop \<open>for _ in range(args.rounds)\<close> of one case, with the list \<open>round_averages\<close>.\<close>

fun run_rounds ::
  "env \<Rightarrow> string \<Rightarrow> int option action \<Rightarrow> int \<Rightarrow> nat \<Rightarrow> rat list \<Rightarrow> world \<Rightarrow> (py_error + rat list) \<times> world"
where
  "run_rounds e name fn iters 0 round_averages w = (Inr round_averages, w)"
| "run_rounds e name fn iters (Suc n) round_averages w =
     (case run_case e name fn iters w of
        (Inl err, w1) \<Rightarrow> (Inl err, w1)
      | (Inr avg, w1) \<Rightarrow> run_rounds e name fn iters n (round_averages @ [avg]) w1)"

text \<open>The loop \<open>for case in cases\<close>, with the list \<open>results\<close>.\<close>

fun run_cases ::
  "env \<Rightarrow> (string \<times> row list) list \<Rightarrow> args \<Rightarrow> bench_case list \<Rightarrow> bench_result list \<Rightarrow> world
    \<Rightarrow> (py_error + bench_result list) \<times> world"
where
  "run_cases e datasets a [] results w = (Inr results, w)"
| "run_cases e datasets a (c # cs) results w =
     (case map_of datasets (case_dataset c) of
        None \<Rightarrow> (Inl (KeyError (case_dataset c)), w)
      | Some df \<Rightarrow>
          (case run_rounds e (case_name c) (invoke e (case_name c) df) (arg_iters a)
                  (nat (arg_rounds a)) [] w of
             (Inl err, w1) \<Rightarrow> (Inl err, w1)
           | (Inr round_averages, w1) \<Rightarrow>
               run_cases e datasets a cs
                 (results @ [\<lparr>res_case = case_name c, res_dataset = case_dataset c,
                               res_avg_ms = median round_averages,
                               res_round_averages = round_averages\<rparr>]) w1))"

text \<open>\<open>os.path.dirname\<close> of a POSIX path.\<close>

definition py_dirname :: "string \<Rightarrow> string" where
  "py_dirname p =
     (let head = rev (dropWhile (\<lambda>c. c \<noteq> CHR ''/'') (rev p))
      in if head \<noteq> [] \<and> head \<noteq> replicate (length head) CHR ''/''
         then rev (dropWhile (\<lambda>c. c = CHR ''/'') (rev head)) else head)"

text \<open>The format \<open>:.2f\<close> of a float.\<close>

definition two_digits :: "nat \<Rightarrow> string" where
  "two_digits n = [digit_char (n div 10), digit_char (n mod 10)]"

definition fmt_2f :: "rat \<Rightarrow> string" where
  "fmt_2f x =
     (let c = nat (round_half_even (\<bar>x\<bar> * 100))
      in (if x < 0 then ''-'' else []) @ str_nat (c div 100) @ ''.'' @ two_digits (c mod 100))"

definition report_lines :: "args \<Rightarrow> bench_result list \<Rightarrow> string list" where
  "report_lines a results =
     [''# bun_panda vs pandas benchmark'',
      ''rows='' @ str_int (arg_rows a) @ '', iterations='' @ str_int (arg_iters a)
        @ '', rounds='' @ str_int (arg_rounds a) @ '', cases='' @ str_int (int (length results)),
      [],
      ''| case | dataset | pandas avg |'',
      ''| --- | --- | ---: |'']
     @ map (\<lambda>entry. ''| '' @ res_case entry @ '' | '' @ res_dataset entry @ '' | ''
                       @ fmt_2f (res_avg_ms entry) @ ''ms |'') results"

text \<open>
  \<open>main\<close>, from the parsed arguments on. \<open>os.makedirs\<close> of an empty directory name raises
  \<open>FileNotFoundError\<close>; what else the file system refuses is the environment's. An
  exception of \<open>run_case\<close> is caught nowhere and ends the run.
\<close>

definition main :: "env \<Rightarrow> args \<Rightarrow> world \<Rightarrow> (py_error + unit) \<times> world" where
  "main e a w =
     (let (base, c1) = build_dataset (arg_rows a) False False False False (cells w);
          (high_card, c2) = build_dataset (arg_rows a) False False True False c1;
          (missing, c3) = build_dataset (arg_rows a) False False False True c2;
          datasets = [(''base'', base), (''high_card'', high_card), (''missing'', missing)]
      in case run_cases e datasets a cases [] (w\<lparr>cells := c3\<rparr>) of
           (Inl err, w1) \<Rightarrow> (Inl err, w1)
         | (Inr results, w1) \<Rightarrow>
             (let payload = \<lparr>generatedAt = utc_now e, p_rows = arg_rows a,
                              p_iterations = arg_iters a, p_rounds = arg_rounds a,
                              p_cases = int (length results), p_results = results\<rparr>
              in if py_dirname (arg_json_out a) = [] then (Inl (FileNotFoundError []), w1)
                 else if \<not> fs_ok e (arg_json_out a) then (Inl (OSError (arg_json_out a)), w1)
                 else (Inr (),
                       w1\<lparr>written := written w1 @ [(arg_json_out a, payload)],
                          stdout := stdout w1 @ report_lines a results\<rparr>)))"

section \<open>Notions the properties are stated with\<close>

text \<open>
  The recurrence of the generator as the specification writes it, the outputs of \<open>k\<close>
  successive calls of a generator, and the rows as a function of the generator's state.
\<close>

definition lcg_next :: "int \<Rightarrow> int" where
  "lcg_next st = (1664525 * st + 1013904223) mod 2 ^ 32"

primrec lcg_state :: "int \<Rightarrow> nat \<Rightarrow> int" where
  "lcg_state seed 0 = seed mod 2 ^ 32"
| "lcg_state seed (Suc k) = lcg_next (lcg_state seed k)"

primrec rnd_repeat :: "nat \<Rightarrow> nat \<Rightarrow> store \<Rightarrow> rat list \<times> store" where
  "rnd_repeat 0 g s = ([], s)"
| "rnd_repeat (Suc k) g s =
     (let (x, s1) = rnd g s; (xs, s2) = rnd_repeat k g s1 in (x # xs, s2))"

definition draw_value :: "int \<Rightarrow> int" where
  "draw_value st = py_int (of_int st / 2 ^ 32 * 1000)"

definition draw_weight :: "int \<Rightarrow> rat" where
  "draw_weight st = py_round2 (of_int st / 2 ^ 32 * 5 + 1 / 2)"

fun rows_from :: "bool \<Rightarrow> bool \<Rightarrow> bool \<Rightarrow> bool \<Rightarrow> int list \<Rightarrow> int \<Rightarrow> row list" where
  "rows_from sk wd hc im [] st = []"
| "rows_from sk wd hc im (idx # rest) st =
     (let st1 = lcg_next st; st2 = lcg_next st1
      in dataset_row sk wd hc im idx (draw_value st1) (draw_weight st2)
         # rows_from sk wd hc im rest st2)"

text \<open>The rows of a category, a block of 100 rows, and the count the skew leads to.\<close>

definition count_group :: "string \<Rightarrow> row list \<Rightarrow> nat" where
  "count_group c rows = length (filter (\<lambda>r. row_group r = c) rows)"

definition block :: "nat \<Rightarrow> row list \<Rightarrow> row list" where
  "block b rows = take 100 (drop (100 * b) rows)"

definition skew_count :: "nat \<Rightarrow> nat" where
  "skew_count c = length (filter (\<lambda>j. j < 70 \<or> (c + j) mod 6 = 0) [0..<100])"

text \<open>
  The events of a run. A timed invocation with result \<open>v\<close> leaves a clock reading, the
  invocation and a second clock reading; a round that completes is 3 invocations with any
  results (\<open>None\<close> included) and no clock reading, followed by \<open>n\<close> timed invocations.
  \<open>duration_ms e k\<close> is the time in milliseconds from clock reading \<open>k\<close> of the run to
  the next one, and \<open>round_mean e n c\<close> the mean of the \<open>n\<close> durations that start at the
  clock readings \<open>c\<close>, \<open>c + 2\<close>, ...
\<close>

definition timed_events :: "string \<Rightarrow> int list \<Rightarrow> event list" where
  "timed_events nm os = concat (map (\<lambda>v. [Clock_read, Invoked nm (Some v), Clock_read]) os)"

definition round_events :: "string \<Rightarrow> nat \<Rightarrow> event list \<Rightarrow> bool" where
  "round_events nm n t =
     (\<exists>ws os. length ws = 3 \<and> length os = n \<and> t = map (Invoked nm) ws @ timed_events nm os)"

definition duration_ms :: "env \<Rightarrow> nat \<Rightarrow> rat" where
  "duration_ms e k = (perf_counter_reading e (k + 1) - perf_counter_reading e k) * 1000"

definition round_mean :: "env \<Rightarrow> nat \<Rightarrow> nat \<Rightarrow> rat" where
  "round_mean e n c = sum_list (map (\<lambda>j. duration_ms e (c + 2 * j)) [0..<n]) / of_nat n"

text \<open>
  The results of the timed invocations of a trace, in order: those made between a clock
  reading of odd rank and the next one. \<open>n_warmups\<close> below counts the other invocations.
\<close>

fun timed_outs :: "bool \<Rightarrow> event list \<Rightarrow> int option list" where
  "timed_outs started [] = []"
| "timed_outs started (Clock_read # t) = timed_outs (\<not> started) t"
| "timed_outs started (Invoked nm out # t) =
     (if started then [out] else []) @ timed_outs started t"

text \<open>
  A trace in which every timed invocation is complete and has a result, and a trace that
  ends, after such a trace, with a timed invocation of the case \<open>nm\<close> that returned \<open>None\<close>.
\<close>

definition clean :: "event list \<Rightarrow> bool" where
  "clean t \<longleftrightarrow> even (n_clock_reads t) \<and> None \<notin> set (timed_outs False t)"

definition aborted :: "string \<Rightarrow> event list \<Rightarrow> bool" where
  "aborted nm t \<longleftrightarrow> (\<exists>t0. clean t0 \<and> t = t0 @ [Clock_read, Invoked nm None])"

text \<open>
  The payload \<open>main\<close> builds from the results, and the results of the cases \<open>cs\<close>: their
  names and datasets in order, one round average for each round, the median as the average.
\<close>

definition make_payload :: "env \<Rightarrow> args \<Rightarrow> bench_result list \<Rightarrow> payload" where
  "make_payload e a rs =
     \<lparr>generatedAt = utc_now e, p_rows = arg_rows a, p_iterations = arg_iters a,
      p_rounds = arg_rounds a, p_cases = int (length rs), p_results = rs\<rparr>"

definition results_of :: "args \<Rightarrow> bench_case list \<Rightarrow> bench_result list \<Rightarrow> bool" where
  "results_of a cs rs \<longleftrightarrow>
     map res_case rs = map case_name cs \<and> map res_dataset rs = map case_dataset cs \<and>
     list_all (\<lambda>r. length (res_round_averages r) = nat (arg_rounds a) \<and>
                    res_avg_ms r = median (res_round_averages r)) rs"

text \<open>
  The three datasets of \<open>main\<close> and the state in which it starts the cases: the three
  generators have left their cells in the store.
\<close>

definition main_datasets :: "args \<Rightarrow> (string \<times> row list) list" where
  "main_datasets a =
     [(''base'', rows_from False False False False (py_range (arg_rows a)) 42),
      (''high_card'', rows_from False False True False (py_range (arg_rows a)) 42),
      (''missing'', rows_from False False False True (py_range (arg_rows a)) 42)]"

definition main_start :: "args \<Rightarrow> world \<Rightarrow> world" where
  "main_start a w =
     w\<lparr>cells := cells w @ replicate 3 ((lcg_next ^^ (2 * nat (arg_rows a))) 42)\<rparr>"

definition n_warmups :: "event list \<Rightarrow> nat" where
  "n_warmups t = n_invocations t - length (timed_outs False t)"

text \<open>Concrete environments, arguments and a start to run the program on.\<close>

definition env_steady :: env where
  "env_steady = \<lparr>fn_result = (\<lambda>name df k. Some 5),
     perf_counter_reading = (\<lambda>k. of_nat (k * k) / 1000), utc_now = ''2026-01-01T00:00:00Z'',
     fs_ok = (\<lambda>p. True)\<rparr>"

definition env_warm_none :: env where
  "env_warm_none = env_steady\<lparr>fn_result := (\<lambda>name df k. if k = 0 then None else Some 5)\<rparr>"

definition env_timed_none :: env where
  "env_timed_none = env_steady\<lparr>fn_result := (\<lambda>name df k. if k = 3 then None else Some 5)\<rparr>"

definition world0 :: world where
  "world0 = \<lparr>trace = [], cells = [], written = [], stdout = []\<rparr>"

definition args_small :: args where
  "args_small = \<lparr>arg_rows = 0, arg_iters = 1, arg_rounds = 1, arg_json_out = ''out/pandas.json''\<rparr>"

definition args_no_rounds :: args where
  "args_no_rounds = args_small\<lparr>arg_rounds := 0\<rparr>"

definition args_neg_rounds :: args where
  "args_neg_rounds = args_small\<lparr>arg_rounds := - 1\<rparr>"

section \<open>The generator and the dataset\<close>

lemma and_mask32: "(x::int) AND 4294967295 = x mod 2 ^ 32"
proof -
  have "(4294967295::int) = mask 32" by (simp add: mask_eq_exp_minus_1)
  then show ?thesis by (simp only: take_bit_eq_mask [symmetric] take_bit_eq_mod)
qed

lemma rnd_eq:
  "rnd g s = (of_int (lcg_next (s ! g)) / 2 ^ 32, s[g := lcg_next (s ! g)])"
  by (simp add: rnd_def lcg_next_def and_mask32 Let_def)

lemma lcg_eq: "lcg seed s = (length s, s @ [seed mod 2 ^ 32])"
  by (simp add: lcg_def and_mask32)

lemma build_rows_eq:
  "g < length s \<Longrightarrow>
   build_rows sk wd hc im g idxs rows s =
     (rows @ rows_from sk wd hc im idxs (s ! g),
      s[g := (lcg_next ^^ (2 * length idxs)) (s ! g)])"
proof (induction idxs arbitrary: rows s)
  case Nil
  then show ?case by simp
next
  case (Cons idx rest)
  let ?s2 = "s[g := lcg_next (lcg_next (s ! g))]"
  have len: "g < length ?s2" using Cons.prems by simp
  have "build_rows sk wd hc im g (idx # rest) rows s =
        build_rows sk wd hc im g rest
          (rows @ [dataset_row sk wd hc im idx (draw_value (lcg_next (s ! g)))
             (draw_weight (lcg_next (lcg_next (s ! g))))]) ?s2"
    using Cons.prems by (simp add: rnd_eq Let_def draw_value_def draw_weight_def)
  also have "\<dots> = ((rows @ [dataset_row sk wd hc im idx (draw_value (lcg_next (s ! g)))
             (draw_weight (lcg_next (lcg_next (s ! g))))])
            @ rows_from sk wd hc im rest (?s2 ! g),
          ?s2[g := (lcg_next ^^ (2 * length rest)) (?s2 ! g)])"
    by (rule Cons.IH [OF len])
  also have "\<dots> = (rows @ rows_from sk wd hc im (idx # rest) (s ! g),
      s[g := (lcg_next ^^ (2 * length (idx # rest))) (s ! g)])"
    using Cons.prems by (simp add: Let_def funpow_swap1)
  finally show ?case .
qed

lemma build_dataset_eq:
  "build_dataset n sk wd hc im s =
     (rows_from sk wd hc im (py_range n) 42, s @ [(lcg_next ^^ (2 * nat n)) 42])"
proof -
  have "build_dataset n sk wd hc im s =
        build_rows sk wd hc im (length s) (py_range n) [] (s @ [42])"
    by (simp add: build_dataset_def lcg_eq)
  also have "\<dots> = ([] @ rows_from sk wd hc im (py_range n) ((s @ [42]) ! length s),
       (s @ [42])[length s := (lcg_next ^^ (2 * length (py_range n))) ((s @ [42]) ! length s)])"
    by (rule build_rows_eq) simp
  finally show ?thesis by (simp add: py_range_def)
qed

text \<open>
  Claim C1. The rows \<open>build_dataset\<close> returns do not depend on the store the call
  starts in, whatever generators were made and however far they were run before: the call
  makes a generator of its own from the constant 42. So two calls with the same arguments
  return the same rows, the second call run in the store the first one leaves included. This
  holds for every row count (a count below 1 gives no rows) and all flags.
\<close>

theorem build_dataset_deterministic:
  "fst (build_dataset n sk wd hc im s) = fst (build_dataset n sk wd hc im s') \<and>
   fst (build_dataset n sk wd hc im (snd (build_dataset n sk wd hc im s)))
     = fst (build_dataset n sk wd hc im s)"
  by (simp add: build_dataset_eq)

lemma length_rows_from: "length (rows_from sk wd hc im idxs st) = length idxs"
  by (induction idxs arbitrary: st) (simp_all add: Let_def)

lemma rows_from_nth:
  "i < length idxs \<Longrightarrow>
   \<exists>v wt. rows_from sk wd hc im idxs st ! i = dataset_row sk wd hc im (idxs ! i) v wt"
proof (induction idxs arbitrary: st i)
  case Nil
  then show ?case by simp
next
  case (Cons idx rest)
  show ?case
  proof (cases i)
    case 0
    then show ?thesis by (auto simp: Let_def)
  next
    case (Suc j)
    with Cons.prems have "j < length rest" by simp
    from Cons.IH [OF this] Suc show ?thesis by (simp add: Let_def)
  qed
qed

lemma length_build_dataset: "length (fst (build_dataset n sk wd hc im s)) = nat n"
  by (simp add: build_dataset_eq length_rows_from py_range_def)

lemma build_dataset_nth:
  assumes "i < nat n"
  shows "\<exists>v wt. fst (build_dataset n sk wd hc im s) ! i = dataset_row sk wd hc im (int i) v wt"
proof -
  have "i < length (py_range n)" using assms by (simp add: py_range_def)
  from rows_from_nth [OF this, of sk wd hc im 42]
  show ?thesis using assms by (simp add: build_dataset_eq py_range_def)
qed

lemma build_dataset_row:
  assumes "r \<in> set (fst (build_dataset n sk wd hc im s))"
  shows "\<exists>i v wt. i < nat n \<and> r = dataset_row sk wd hc im (int i) v wt"
proof -
  from assms obtain i where i: "i < nat n" and r: "r = fst (build_dataset n sk wd hc im s) ! i"
    by (auto simp: in_set_conv_nth length_build_dataset)
  from build_dataset_nth [OF i, of sk wd hc im s] r i show ?thesis by auto
qed

text \<open>
  Claim C7. A call of \<open>rnd\<close> replaces the state \<open>x\<close> of its cell by
  \<open>(1664525 * x + 1013904223) mod 2 ^ 32\<close> and returns the new state divided by \<open>2 ^ 32\<close>,
  a number in \<open>[0, 1)\<close>. The outputs of the first \<open>k\<close> calls of a generator made by
  \<open>lcg seed\<close> are the states 1 to \<open>k\<close> of the recurrence started at \<open>seed mod 2 ^ 32\<close>,
  divided by \<open>2 ^ 32\<close>: they depend on the seed and the number of the call only, not on the
  store.
\<close>

theorem lcg_recurrence:
  "snd (rnd g s) = s[g := (1664525 * (s ! g) + 1013904223) mod 2 ^ 32] \<and>
   fst (rnd g s) = of_int ((1664525 * (s ! g) + 1013904223) mod 2 ^ 32) / 2 ^ 32 \<and>
   0 \<le> fst (rnd g s) \<and> fst (rnd g s) < 1 \<and>
   rnd_repeat k (fst (lcg seed s)) (snd (lcg seed s))
     = (map (\<lambda>i. of_int (lcg_state seed (Suc i)) / 2 ^ 32) [0..<k], s @ [lcg_state seed k])"
proof -
  have range: "0 \<le> fst (rnd g s) \<and> fst (rnd g s) < 1"
  proof -
    have "0 \<le> lcg_next (s ! g)" "lcg_next (s ! g) < 2 ^ 32"
      by (simp_all add: lcg_next_def)
    then have "(0::rat) \<le> of_int (lcg_next (s ! g))" "(of_int (lcg_next (s ! g)) :: rat) < 2 ^ 32"
      by (simp, metis of_int_less_iff of_int_numeral of_int_power)
    then show ?thesis by (simp add: rnd_eq)
  qed
  have rep: "rnd_repeat k (length s) (s @ [lcg_state seed j])
     = (map (\<lambda>i. of_int (lcg_state seed (Suc (j + i))) / 2 ^ 32) [0..<k], s @ [lcg_state seed (j + k)])"
    for j
  proof (induction k arbitrary: j)
    case 0
    then show ?case by simp
  next
    case (Suc k)
    have "map (\<lambda>i. rat_of_int (lcg_state seed (Suc (j + i))) / 2 ^ 32) [0..<Suc k]
        = rat_of_int (lcg_state seed (Suc j)) / 2 ^ 32
          # map (\<lambda>i. rat_of_int (lcg_state seed (Suc (Suc j + i))) / 2 ^ 32) [0..<k]"
      by (subst map_upt_Suc) simp
    then show ?case using Suc.IH [of "Suc j"] by (simp add: rnd_eq)
  qed
  show ?thesis using range rep [of 0] by (simp add: rnd_eq lcg_eq lcg_next_def)
qed

text \<open>
  Claim C5. In every row of every dataset, \<open>revenue\<close> is \<open>round(value * weight, 2)\<close> and
  \<open>bucket\<close> is \<open>high\<close> above 700, \<open>mid\<close> above 350 and up to 700, \<open>low\<close> otherwise: both are
  functions of the row's \<open>value\<close> and \<open>weight\<close>.
\<close>

theorem derived_fields:
  "\<forall>r \<in> set (fst (build_dataset n sk wd hc im s)).
     row_revenue r = py_round2 (of_int (row_value r) * row_weight r) \<and>
     row_bucket r = (if row_value r > 700 then ''high''
                     else if 350 < row_value r \<and> row_value r \<le> 700 then ''mid'' else ''low'')"
proof
  fix r assume "r \<in> set (fst (build_dataset n sk wd hc im s))"
  from build_dataset_row [OF this] obtain i v wt where "r = dataset_row sk wd hc im (int i) v wt"
    by blast
  then show "row_revenue r = py_round2 (of_int (row_value r) * row_weight r) \<and>
     row_bucket r = (if row_value r > 700 then ''high''
                     else if 350 < row_value r \<and> row_value r \<le> 700 then ''mid'' else ''low'')"
    by (simp add: dataset_row_def)
qed

text \<open>
  Claim C6. The rows are numbered from 0 in order. With \<open>include_missing\<close>, the city of a
  row is \<open>None\<close> exactly when its id is a multiple of 23 and its segment exactly when its id
  is a multiple of 31; without it no row has a city or a segment that is \<open>None\<close>.
\<close>

theorem null_injection:
  "length (fst (build_dataset n sk wd hc im s)) = nat n \<and>
   (\<forall>i < nat n. row_id (fst (build_dataset n sk wd hc im s) ! i) = int i) \<and>
   (\<forall>r \<in> set (fst (build_dataset n sk wd hc im s)).
      if im then (row_city r = None \<longleftrightarrow> row_id r mod 23 = 0) \<and>
                 (row_segment r = None \<longleftrightarrow> row_id r mod 31 = 0)
      else row_city r \<noteq> None \<and> row_segment r \<noteq> None)"
proof (intro conjI allI impI ballI)
  show "length (fst (build_dataset n sk wd hc im s)) = nat n" by (rule length_build_dataset)
next
  fix i assume "i < nat n"
  from build_dataset_nth [OF this, of sk wd hc im s]
  show "row_id (fst (build_dataset n sk wd hc im s) ! i) = int i"
    by (auto simp: dataset_row_def)
next
  fix r assume "r \<in> set (fst (build_dataset n sk wd hc im s))"
  from build_dataset_row [OF this] obtain i v wt where "r = dataset_row sk wd hc im (int i) v wt"
    by blast
  then show "if im then (row_city r = None \<longleftrightarrow> row_id r mod 23 = 0) \<and>
                 (row_segment r = None \<longleftrightarrow> row_id r mod 31 = 0)
      else row_city r \<noteq> None \<and> row_segment r \<noteq> None"
    by (simp add: dataset_row_def)
qed

lemma lcg_next_42: "lcg_next 42 = 1083814273" "lcg_next 1083814273 = 378494188"
  by (simp_all add: lcg_next_def)

lemma draw_examples: "draw_value 1083814273 = 252" "draw_weight 378494188 = 47 / 50"
  by code_simp+

lemma first_row_drawn:
  "row_value (fst (build_dataset 1 sk wd hc im s) ! 0) = 252 \<and>
   row_weight (fst (build_dataset 1 sk wd hc im s) ! 0) = 47 / 50"
  by (simp add: build_dataset_eq py_range_def Let_def dataset_row_def lcg_next_42 draw_examples)

lemma round2_example: "py_round2 (252 * (47 / 50)) = 5922 / 25"
  by code_simp

text \<open>
  The first row of the base dataset: value 252 and weight 0.94 give the revenue 236.88 and
  the bucket \<open>low\<close>.
\<close>

theorem derived_fields_witness:
  "row_value (fst (build_dataset 1 False False False False []) ! 0) = 252 \<and>
   row_weight (fst (build_dataset 1 False False False False []) ! 0) = 47 / 50 \<and>
   row_revenue (fst (build_dataset 1 False False False False []) ! 0) = 5922 / 25 \<and>
   row_bucket (fst (build_dataset 1 False False False False []) ! 0) = ''low''"
proof -
  let ?rows = "fst (build_dataset 1 False False False False [])"
  have "?rows ! 0 \<in> set ?rows"
    by (rule nth_mem) (simp add: length_build_dataset)
  with derived_fields [of 1 False False False False "[]"]
  have "row_revenue (?rows ! 0) = py_round2 (of_int (row_value (?rows ! 0)) * row_weight (?rows ! 0))"
    and "row_bucket (?rows ! 0) = (if row_value (?rows ! 0) > 700 then ''high''
           else if 350 < row_value (?rows ! 0) \<and> row_value (?rows ! 0) \<le> 700 then ''mid'' else ''low'')"
    by blast+
  then show ?thesis
    using first_row_drawn [of False False False False "[]"] round2_example by simp
qed

text \<open>
  Rows 23 and 31 of a dataset of 32 rows, with and without \<open>include_missing\<close>.
\<close>

theorem null_injection_witness:
  "row_city (fst (build_dataset 32 False False False True []) ! 23) = None \<and>
   row_segment (fst (build_dataset 32 False False False True []) ! 23) \<noteq> None \<and>
   row_segment (fst (build_dataset 32 False False False True []) ! 31) = None \<and>
   row_city (fst (build_dataset 32 False False False True []) ! 31) \<noteq> None \<and>
   row_city (fst (build_dataset 32 False False False False []) ! 23) \<noteq> None \<and>
   row_segment (fst (build_dataset 32 False False False False []) ! 31) \<noteq> None"
proof -
  let ?m = "fst (build_dataset 32 False False False True [])"
  let ?b = "fst (build_dataset 32 False False False False [])"
  note m = null_injection [of 32 False False False True "[]"]
  note b = null_injection [of 32 False False False False "[]"]
  have len: "length ?m = 32" "length ?b = 32" using m b by simp_all
  have mem: "?m ! 23 \<in> set ?m" "?m ! 31 \<in> set ?m" "?b ! 23 \<in> set ?b" "?b ! 31 \<in> set ?b"
    using len by simp_all
  have ids: "row_id (?m ! 23) = 23" "row_id (?m ! 31) = 31"
    using m by simp_all
  from m mem(1,2) have
    "(row_city (?m ! 23) = None \<longleftrightarrow> row_id (?m ! 23) mod 23 = 0) \<and>
     (row_segment (?m ! 23) = None \<longleftrightarrow> row_id (?m ! 23) mod 31 = 0)"
    "(row_city (?m ! 31) = None \<longleftrightarrow> row_id (?m ! 31) mod 23 = 0) \<and>
     (row_segment (?m ! 31) = None \<longleftrightarrow> row_id (?m ! 31) mod 31 = 0)"
    by simp_all
  moreover from b mem(3,4) have
    "row_city (?b ! 23) \<noteq> None" "row_segment (?b ! 31) \<noteq> None"
    by simp_all
  ultimately show ?thesis using ids by simp
qed

subsection \<open>The skewed column\<close>

lemma skew_count_0: "skew_count 0 = 75" by code_simp
lemma skew_count_2: "skew_count 2 = 75" by code_simp
lemma skew_count_4: "skew_count 4 = 75" by code_simp
lemmas skew_count_values = skew_count_0 skew_count_2 skew_count_4

lemma take_drop_map_nth:
  "m + n \<le> length xs \<Longrightarrow> take n (drop m xs) = map (\<lambda>j. xs ! (m + j)) [0..<n]"
  by (rule nth_equalityI) simp_all

lemma groups_nth_A: "k < 6 \<Longrightarrow> groups ! k = ''A'' \<longleftrightarrow> k = 0"
proof -
  assume "k < 6"
  then have "k \<in> {0, 1, 2, 3, 4, 5}" by auto
  then show ?thesis by (auto simp: groups_def)
qed

lemma row_group_nth:
  assumes "i < nat n"
  shows "row_group (fst (build_dataset n sk wd hc im s) ! i)
       = (if sk \<and> i mod 100 < 70 then ''A'' else groups ! (i mod 6))"
proof -
  from build_dataset_nth [OF assms, of sk wd hc im s] obtain v wt where
    "fst (build_dataset n sk wd hc im s) ! i = dataset_row sk wd hc im (int i) v wt" by blast
  moreover have "nat (int i mod 6) = i mod 6" by (simp add: nat_mod_distrib)
  moreover have "int i mod 100 < 70 \<longleftrightarrow> i mod 100 < 70"
    by (metis of_nat_mod of_nat_numeral of_nat_less_iff)
  ultimately show ?thesis by (simp add: dataset_row_def groups_def)
qed

lemma hundred_mod_6: "(100 * b) mod 6 \<in> {0, 2, 4::nat}"
proof -
  have "100 * b = 100 * (b mod 3) + 6 * (50 * (b div 3))"
    using div_mult_mod_eq [of b 3] by arith
  then have eq: "(100 * b) mod 6 = (100 * (b mod 3)) mod 6"
    by (simp only: mod_mult_self2)
  have "b mod 3 < 3" by simp
  then have "b mod 3 = 0 \<or> b mod 3 = 1 \<or> b mod 3 = 2" by arith
  then show ?thesis unfolding eq by (elim disjE) simp_all
qed

lemma block_count:
  assumes "100 * (b + 1) \<le> nat n"
  shows "count_group ''A'' (block b (fst (build_dataset n True wd hc im s))) = 75"
proof -
  let ?rows = "fst (build_dataset n True wd hc im s)"
  let ?c = "(100 * b) mod 6"
  have len: "100 * b + 100 \<le> length ?rows" using assms by (simp add: length_build_dataset)
  have blk: "block b ?rows = map (\<lambda>j. ?rows ! (100 * b + j)) [0..<100]"
    unfolding block_def by (rule take_drop_map_nth [OF len])
  have "count_group ''A'' (block b ?rows)
      = length (filter (\<lambda>j. row_group (?rows ! (100 * b + j)) = ''A'') [0..<100])"
    by (simp add: count_group_def blk filter_map comp_def)
  also have "\<dots> = length (filter (\<lambda>j. j < 70 \<or> (?c + j) mod 6 = 0) [0..<100])"
  proof (rule arg_cong [where f = length], rule filter_cong [OF refl])
    fix j assume "j \<in> set [0..<100]"
    then have j: "j < 100" by simp
    then have i: "100 * b + j < nat n" using assms by simp
    have m100: "(100 * b + j) mod 100 = j" using j by simp
    have m6: "(100 * b + j) mod 6 = (?c + j) mod 6" by (rule mod_add_left_eq [symmetric])
    have grp: "row_group (?rows ! (100 * b + j))
        = (if j < 70 then ''A'' else groups ! ((?c + j) mod 6))"
      using row_group_nth [OF i, of True wd hc im s] by (simp only: m100 m6 simp_thms)
    have "(?c + j) mod 6 < 6" by simp
    then have A: "groups ! ((?c + j) mod 6) = ''A'' \<longleftrightarrow> (?c + j) mod 6 = 0"
      by (rule groups_nth_A)
    show "row_group (?rows ! (100 * b + j)) = ''A'' \<longleftrightarrow> j < 70 \<or> (?c + j) mod 6 = 0"
    proof (cases "j < 70")
      case True
      then show ?thesis by (simp only: grp if_True simp_thms)
    next
      case False
      then show ?thesis by (simp only: grp if_False A simp_thms)
    qed
  qed
  also have "\<dots> = skew_count ?c" by (simp add: skew_count_def)
  also have "\<dots> = 75" using hundred_mod_6 [of b] skew_count_values by auto
  finally show ?thesis .
qed

text \<open>
  Claim C4, as the code has it. The group of row \<open>i\<close> is the first category \<open>A\<close> when
  \<open>skew\<close> is set and \<open>i mod 100 < 70\<close>, and the category at \<open>i mod 6\<close> of the list otherwise
  (always, when \<open>skew\<close> is unset). The rows of a block that cycle meet the first category
  too, at the five indices of the block that are multiples of 6: with \<open>skew\<close> every complete
  block of 100 rows has 75 rows of the first category, not 70.
\<close>

theorem skew_groups:
  "hd groups = ''A'' \<and>
   (\<forall>i < nat n. row_group (fst (build_dataset n sk wd hc im s) ! i)
        = (if sk \<and> i mod 100 < 70 then ''A'' else groups ! (i mod 6))) \<and>
   (\<forall>b. 100 * (b + 1) \<le> nat n \<longrightarrow>
        count_group ''A'' (block b (fst (build_dataset n True wd hc im s))) = 75)"
  by (simp add: row_group_nth block_count groups_def)

text \<open>
  The second block of a skewed dataset of 200 rows; row 174 is not among the 70 rows of
  the skew rule and is in group \<open>A\<close> all the same.
\<close>

theorem skew_groups_witness:
  "count_group ''A'' (block 1 (fst (build_dataset 200 True False False False []))) = 75 \<and>
   row_group (fst (build_dataset 200 True False False False []) ! 174) = ''A'' \<and>
   row_group (fst (build_dataset 200 True False False False []) ! 175) = ''B'' \<and>
   row_group (fst (build_dataset 200 False False False False []) ! 3) = ''D''"
proof -
  note sk = skew_groups [of 200 True False False False "[]"]
  note un = skew_groups [of 200 False False False False "[]"]
  have "100 * (1 + 1) \<le> nat 200" by simp
  with sk have "count_group ''A'' (block 1 (fst (build_dataset 200 True False False False []))) = 75"
    by blast
  moreover have "(174::nat) < nat 200" "(175::nat) < nat 200" "(3::nat) < nat 200" by simp_all
  with sk un have
    "row_group (fst (build_dataset 200 True False False False []) ! 174)
       = (if True \<and> (174::nat) mod 100 < 70 then ''A'' else groups ! (174 mod 6))"
    "row_group (fst (build_dataset 200 True False False False []) ! 175)
       = (if True \<and> (175::nat) mod 100 < 70 then ''A'' else groups ! (175 mod 6))"
    "row_group (fst (build_dataset 200 False False False False []) ! 3)
       = (if False \<and> (3::nat) mod 100 < 70 then ''A'' else groups ! (3 mod 6))"
    by blast+
  ultimately show ?thesis by (simp add: groups_def)
qed

text \<open>
  The claim as stated fails on the first block of a skewed dataset of 100 rows: the rows of
  the first category are not 70 of the 100.
\<close>

theorem skew_seventy_percent_counterexample:
  "count_group ''A'' (block 0 (fst (build_dataset 100 True False False False []))) \<noteq> 70"
  using block_count [of 0 100 False False False "[]"] by simp

subsection \<open>The median\<close>

lemma median_sort:
  "xs \<noteq> [] \<Longrightarrow>
   median xs = (if odd (length xs) then sort xs ! (length xs div 2)
      else (sort xs ! (length xs div 2 - 1) + sort xs ! (length xs div 2)) / 2)"
  by (simp add: median_def Let_def odd_iff_mod_2_eq_one)

text \<open>
  Claim C2. The median of a non-empty list is read off any sorted arrangement of it (there
  is one only): the middle element when the length is odd, the mean of the two central
  elements when it is even. The two examples of the specification are as it gives them.
\<close>

theorem median_middle:
  assumes "xs \<noteq> []" and "sorted s" and "mset s = mset xs"
  shows "median xs = (if odd (length xs) then s ! (length xs div 2)
      else (s ! (length xs div 2 - 1) + s ! (length xs div 2)) / 2) \<and>
    median [3, 1, 2] = 2 \<and> median [4, 1, 3, 2] = 5 / 2"
proof -
  have "sort xs = s"
    using assms(3,2) by (rule properties_for_sort)
  then show ?thesis
    using median_sort [OF assms(1)] by (simp add: median_def)
qed

text \<open>Two more lists, of even and of odd length.\<close>

theorem median_middle_witness:
  "median [7, 1, 5, 3] = (3 + 5) / 2 \<and> median [9, 2, 4] = 4"
proof -
  have a: "[7, 1, 5, 3] \<noteq> ([]::rat list)" "sorted [1, 3, 5, 7::rat]"
    "mset [1, 3, 5, 7::rat] = mset [7, 1, 5, 3]" by simp_all
  have b: "[9, 2, 4] \<noteq> ([]::rat list)" "sorted [2, 4, 9::rat]"
    "mset [2, 4, 9::rat] = mset [9, 2, 4]" by simp_all
  from median_middle [OF a] median_middle [OF b] show ?thesis by simp
qed

section \<open>The timing harness and the run\<close>

subsection \<open>The events of one round\<close>

lemma n_clock_reads_append [simp]:
  "n_clock_reads (t @ u) = n_clock_reads t + n_clock_reads u"
  by (simp add: n_clock_reads_def)

lemma n_invocations_append [simp]:
  "n_invocations (t @ u) = n_invocations t + n_invocations u"
  by (simp add: n_invocations_def)

lemma n_clock_reads_simps [simp]:
  "n_clock_reads [] = 0"
  "n_clock_reads (Clock_read # t) = Suc (n_clock_reads t)"
  "n_clock_reads (Invoked nm out # t) = n_clock_reads t"
  by (simp_all add: n_clock_reads_def)

lemma n_clock_reads_invoked [simp]: "n_clock_reads (map (Invoked nm) ws) = 0"
  by (induction ws) simp_all

lemma n_clock_reads_timed [simp]: "n_clock_reads (timed_events nm os) = 2 * length os"
  by (induction os) (simp_all add: timed_events_def)

lemma timed_events_Cons:
  "timed_events nm (v # os) = [Clock_read, Invoked nm (Some v), Clock_read] @ timed_events nm os"
  by (simp add: timed_events_def)

lemma invoke_eq:
  "invoke e nm df w =
     (fn_result e nm df (n_invocations (trace w)),
      w\<lparr>trace := trace w @ [Invoked nm (fn_result e nm df (n_invocations (trace w)))]\<rparr>)"
  by (simp add: invoke_def Let_def)

lemma perf_counter_eq:
  "perf_counter e w =
     (perf_counter_reading e (n_clock_reads (trace w)), w\<lparr>trace := trace w @ [Clock_read]\<rparr>)"
  by (simp add: perf_counter_def)

lemma warmup_3:
  "\<exists>ws. length ws = 3 \<and>
     warmup 3 (invoke e nm df) w = w\<lparr>trace := trace w @ map (Invoked nm) ws\<rparr>"
proof -
  let ?k = "n_invocations (trace w)"
  let ?ws = "[fn_result e nm df ?k, fn_result e nm df (?k + 1), fn_result e nm df (?k + 2)]"
  have "warmup 3 (invoke e nm df) w = w\<lparr>trace := trace w @ map (Invoked nm) ?ws\<rparr>"
    by (simp add: numeral_3_eq_3 invoke_eq n_invocations_def)
  then show ?thesis by (intro exI [of _ ?ws]) simp
qed

lemma timed_loop_step:
  "timed_loop e name (invoke e nm df) (Suc n) tms w =
     (case fn_result e nm df (n_invocations (trace w)) of
        None \<Rightarrow> (Inl (RuntimeError (none_message name)),
                 w\<lparr>trace := trace w @ [Clock_read, Invoked nm None]\<rparr>)
      | Some v \<Rightarrow>
          timed_loop e name (invoke e nm df) n
            (tms @ [duration_ms e (n_clock_reads (trace w))])
            (w\<lparr>trace := trace w @ [Clock_read, Invoked nm (Some v), Clock_read]\<rparr>))"
proof -
  let ?out = "fn_result e nm df (n_invocations (trace w))"
  have inv: "invoke e nm df (w\<lparr>trace := trace w @ [Clock_read]\<rparr>)
      = (?out, w\<lparr>trace := trace w @ [Clock_read, Invoked nm ?out]\<rparr>)"
    by (simp add: invoke_def Let_def n_invocations_def)
  show ?thesis
    by (cases ?out) (simp_all add: perf_counter_eq inv duration_ms_def)
qed

lemma timed_loop_Inr:
  "timed_loop e name (invoke e nm df) n tms w = (Inr tms', w') \<Longrightarrow>
   \<exists>os. length os = n \<and> w' = w\<lparr>trace := trace w @ timed_events nm os\<rparr> \<and>
     tms' = tms @ map (\<lambda>j. duration_ms e (n_clock_reads (trace w) + 2 * j)) [0..<n]"
proof (induction n arbitrary: tms w)
  case 0
  then show ?case by (simp add: timed_events_def)
next
  case (Suc n)
  let ?c = "n_clock_reads (trace w)"
  let ?out = "fn_result e nm df (n_invocations (trace w))"
  from Suc.prems obtain v where out: "?out = Some v"
    by (cases ?out) (simp_all add: timed_loop_step del: timed_loop.simps)
  let ?w3 = "w\<lparr>trace := trace w @ [Clock_read, Invoked nm (Some v), Clock_read]\<rparr>"
  from Suc.prems out have
    "timed_loop e name (invoke e nm df) n (tms @ [duration_ms e ?c]) ?w3 = (Inr tms', w')"
    by (simp add: timed_loop_step del: timed_loop.simps)
  from Suc.IH [OF this] obtain os where os: "length os = n"
    "w' = ?w3\<lparr>trace := trace ?w3 @ timed_events nm os\<rparr>"
    "tms' = (tms @ [duration_ms e ?c])
       @ map (\<lambda>j. duration_ms e (n_clock_reads (trace ?w3) + 2 * j)) [0..<n]"
    by blast
  have m: "map (\<lambda>j. duration_ms e (?c + 2 * j)) [0..<Suc n]
      = duration_ms e ?c # map (\<lambda>j. duration_ms e (?c + 2 + 2 * j)) [0..<n]"
    by (subst map_upt_Suc) simp
  have "length (v # os) = Suc n" using os(1) by simp
  moreover have "w' = w\<lparr>trace := trace w @ timed_events nm (v # os)\<rparr>"
    using os(2) by (simp add: timed_events_Cons)
  moreover have "tms' = tms @ map (\<lambda>j. duration_ms e (?c + 2 * j)) [0..<Suc n]"
    using os(3) by (simp only: m) (simp add: add.commute add.left_commute)
  ultimately show ?case by blast
qed

lemma timed_loop_Inl:
  "timed_loop e name (invoke e nm df) n tms w = (Inl err, w') \<Longrightarrow>
   err = RuntimeError (none_message name) \<and>
   (\<exists>os. length os < n \<and>
      w' = w\<lparr>trace := trace w @ timed_events nm os @ [Clock_read, Invoked nm None]\<rparr>)"
proof (induction n arbitrary: tms w)
  case 0
  then show ?case by simp
next
  case (Suc n)
  let ?c = "n_clock_reads (trace w)"
  let ?out = "fn_result e nm df (n_invocations (trace w))"
  show ?case
  proof (cases ?out)
    case None
    with Suc.prems have "err = RuntimeError (none_message name)"
      and "w' = w\<lparr>trace := trace w @ timed_events nm [] @ [Clock_read, Invoked nm None]\<rparr>"
      by (simp_all add: timed_loop_step timed_events_def del: timed_loop.simps)
    then show ?thesis by (intro conjI exI [of _ "[]"]) simp_all
  next
    case (Some v)
    let ?w3 = "w\<lparr>trace := trace w @ [Clock_read, Invoked nm (Some v), Clock_read]\<rparr>"
    from Suc.prems Some have
      "timed_loop e name (invoke e nm df) n (tms @ [duration_ms e ?c]) ?w3 = (Inl err, w')"
      by (simp add: timed_loop_step del: timed_loop.simps)
    from Suc.IH [OF this] obtain os where err: "err = RuntimeError (none_message name)"
      and os: "length os < n"
      "w' = ?w3\<lparr>trace := trace ?w3 @ timed_events nm os @ [Clock_read, Invoked nm None]\<rparr>"
      by blast
    have "length (v # os) < Suc n" using os(1) by simp
    moreover have
      "w' = w\<lparr>trace := trace w @ timed_events nm (v # os) @ [Clock_read, Invoked nm None]\<rparr>"
      using os(2) by (simp add: timed_events_Cons)
    ultimately show ?thesis using err by blast
  qed
qed

subsection \<open>Rounds that complete\<close>

lemma n_clock_reads_round [simp]:
  "round_events nm n t \<Longrightarrow> n_clock_reads t = 2 * n"
  by (auto simp: round_events_def)

lemma run_case_Inr:
  assumes "run_case e name (invoke e nm df) iters w = (Inr avg, w')"
  shows "0 < nat iters \<and>
    (\<exists>t. round_events nm (nat iters) t \<and> w' = w\<lparr>trace := trace w @ t\<rparr>) \<and>
    avg = round_mean e (nat iters) (n_clock_reads (trace w))"
proof -
  obtain ws where ws: "length ws = 3"
    "warmup 3 (invoke e nm df) w = w\<lparr>trace := trace w @ map (Invoked nm) ws\<rparr>"
    using warmup_3 by blast
  let ?w0 = "w\<lparr>trace := trace w @ map (Invoked nm) ws\<rparr>"
  obtain r w1 where tl: "timed_loop e name (invoke e nm df) (nat iters) [] ?w0 = (r, w1)"
    by (cases "timed_loop e name (invoke e nm df) (nat iters) [] ?w0") blast
  with assms ws(2) obtain tms where r: "r = Inr tms" and w1: "w1 = w'"
    and tms: "tms \<noteq> []" and avg: "avg = sum_list tms / of_nat (length tms)"
    by (cases r) (auto simp: run_case_def split: if_splits)
  from timed_loop_Inr [OF tl [unfolded r w1]] obtain os where os: "length os = nat iters"
    "w' = ?w0\<lparr>trace := trace ?w0 @ timed_events nm os\<rparr>"
    "tms = [] @ map (\<lambda>j. duration_ms e (n_clock_reads (trace ?w0) + 2 * j)) [0..<nat iters]"
    by blast
  have tms_eq: "tms = map (\<lambda>j. duration_ms e (n_clock_reads (trace w) + 2 * j)) [0..<nat iters]"
    using os(3) by simp
  then have len: "length tms = nat iters" by simp
  with tms have pos: "0 < nat iters" by (cases "nat iters") auto
  have "round_events nm (nat iters) (map (Invoked nm) ws @ timed_events nm os)"
    using ws(1) os(1) by (auto simp: round_events_def)
  moreover have "w' = w\<lparr>trace := trace w @ map (Invoked nm) ws @ timed_events nm os\<rparr>"
    using os(2) by simp
  moreover have "avg = round_mean e (nat iters) (n_clock_reads (trace w))"
    unfolding avg len round_mean_def by (simp only: tms_eq)
  ultimately show ?thesis using pos by blast
qed

lemma run_rounds_Inr:
  "run_rounds e name (invoke e nm df) iters n avgs w = (Inr avgs', w') \<Longrightarrow>
   \<exists>blocks. length blocks = n \<and> (\<forall>b \<in> set blocks. round_events nm (nat iters) b) \<and>
     w' = w\<lparr>trace := trace w @ concat blocks\<rparr> \<and>
     avgs' = avgs @ map (\<lambda>r. round_mean e (nat iters)
                               (n_clock_reads (trace w) + 2 * nat iters * r)) [0..<n]"
proof (induction n arbitrary: avgs w)
  case 0
  then show ?case by simp
next
  case (Suc n)
  let ?c = "n_clock_reads (trace w)"
  obtain r w1 where rc: "run_case e name (invoke e nm df) iters w = (r, w1)"
    by (cases "run_case e name (invoke e nm df) iters w") blast
  with Suc.prems obtain avg where r: "r = Inr avg"
    and rest: "run_rounds e name (invoke e nm df) iters n (avgs @ [avg]) w1 = (Inr avgs', w')"
    by (cases r) auto
  from run_case_Inr [OF rc [unfolded r]] obtain t where t: "round_events nm (nat iters) t"
    and w1: "w1 = w\<lparr>trace := trace w @ t\<rparr>"
    and avg: "avg = round_mean e (nat iters) ?c"
    by blast
  from Suc.IH [OF rest] obtain blocks where b: "length blocks = n"
    "\<forall>b \<in> set blocks. round_events nm (nat iters) b"
    "w' = w1\<lparr>trace := trace w1 @ concat blocks\<rparr>"
    "avgs' = (avgs @ [avg]) @ map (\<lambda>r. round_mean e (nat iters)
                               (n_clock_reads (trace w1) + 2 * nat iters * r)) [0..<n]"
    by blast
  have c1: "n_clock_reads (trace w1) = ?c + 2 * nat iters"
    using t w1 by simp
  have m: "map (\<lambda>r. round_mean e (nat iters) (?c + 2 * nat iters * r)) [0..<Suc n]
      = round_mean e (nat iters) ?c
        # map (\<lambda>r. round_mean e (nat iters) (?c + 2 * nat iters + 2 * nat iters * r)) [0..<n]"
    by (subst map_upt_Suc) (simp add: add.assoc)
  have "length (t # blocks) = Suc n" using b(1) by simp
  moreover have "\<forall>b \<in> set (t # blocks). round_events nm (nat iters) b"
    using t b(2) by simp
  moreover have "w' = w\<lparr>trace := trace w @ concat (t # blocks)\<rparr>"
    using b(3) w1 by simp
  moreover have "avgs' = avgs @ map (\<lambda>r. round_mean e (nat iters)
                               (?c + 2 * nat iters * r)) [0..<Suc n]"
    using b(4) avg by (simp only: m c1) simp
  ultimately show ?case by blast
qed

subsection \<open>Runs without and with a missing result\<close>

lemma timed_outs_append:
  "timed_outs b (t @ u) = timed_outs b t @ timed_outs (b \<noteq> odd (n_clock_reads t)) u"
proof (induction t arbitrary: b)
  case Nil
  then show ?case by simp
next
  case (Cons ev t)
  have flip: "((\<not> b) \<noteq> odd (n_clock_reads t)) = (b \<noteq> odd (Suc (n_clock_reads t)))"
    by auto
  show ?case
  proof (cases ev)
    case (Invoked nm out)
    then show ?thesis by (simp add: Cons.IH)
  next
    case Clock_read
    then show ?thesis by (simp only: append_Cons timed_outs.simps Cons.IH n_clock_reads_simps flip)
  qed
qed

lemma timed_outs_invoked [simp]: "timed_outs False (map (Invoked nm) ws) = []"
  by (induction ws) simp_all

lemma timed_outs_timed [simp]: "timed_outs False (timed_events nm os) = map Some os"
  by (induction os) (simp_all add: timed_events_def)

lemma clean_Nil [simp]: "clean []"
  by (simp add: clean_def)

lemma clean_append: "clean t \<Longrightarrow> clean u \<Longrightarrow> clean (t @ u)"
  by (auto simp: clean_def timed_outs_append)

lemma clean_invoked [simp]: "clean (map (Invoked nm) ws)"
  by (simp add: clean_def)

lemma clean_timed [simp]: "clean (timed_events nm os)"
  by (auto simp: clean_def)

lemma clean_round: "round_events nm n t \<Longrightarrow> clean t"
  by (auto simp: round_events_def intro: clean_append)

lemma clean_concat: "\<forall>b \<in> set blocks. clean b \<Longrightarrow> clean (concat blocks)"
  by (induction blocks) (simp_all add: clean_append)

lemma aborted_prepend: "clean t \<Longrightarrow> aborted nm u \<Longrightarrow> aborted nm (t @ u)"
proof -
  assume t: "clean t" and "aborted nm u"
  then obtain u0 where "clean u0" "u = u0 @ [Clock_read, Invoked nm None]"
    by (auto simp: aborted_def)
  with t have "clean (t @ u0)" "t @ u = (t @ u0) @ [Clock_read, Invoked nm None]"
    by (simp_all add: clean_append)
  then show ?thesis unfolding aborted_def by blast
qed

lemma aborted_last:
  assumes "aborted nm t"
  shows "last t = Invoked nm None" and "None \<in> set (timed_outs False t)"
    and "count_list (timed_outs False t) None = 1"
proof -
  from assms obtain t0 where t0: "clean t0" "t = t0 @ [Clock_read, Invoked nm None]"
    by (auto simp: aborted_def)
  then show "last t = Invoked nm None" by simp
  have "timed_outs False t = timed_outs False t0 @ [None]"
    using t0 by (simp add: timed_outs_append clean_def)
  moreover have "None \<notin> set (timed_outs False t0)" using t0(1) by (simp add: clean_def)
  ultimately show "None \<in> set (timed_outs False t)"
    and "count_list (timed_outs False t) None = 1"
    by (simp_all add: count_list_0_iff)
qed

lemma run_case_Inl:
  assumes "run_case e name (invoke e nm df) iters w = (Inl err, w')"
  shows "\<exists>t. w' = w\<lparr>trace := trace w @ t\<rparr> \<and>
     ((err = ZeroDivisionError \<and> clean t) \<or>
      (err = RuntimeError (none_message name) \<and> aborted nm t))"
proof -
  obtain ws where ws: "length ws = 3"
    "warmup 3 (invoke e nm df) w = w\<lparr>trace := trace w @ map (Invoked nm) ws\<rparr>"
    using warmup_3 by blast
  let ?w0 = "w\<lparr>trace := trace w @ map (Invoked nm) ws\<rparr>"
  obtain r w1 where tl: "timed_loop e name (invoke e nm df) (nat iters) [] ?w0 = (r, w1)"
    by (cases "timed_loop e name (invoke e nm df) (nat iters) [] ?w0") blast
  show ?thesis
  proof (cases r)
    case (Inl err1)
    with assms ws(2) tl have e1: "err1 = err" and w1: "w1 = w'"
      by (simp_all add: run_case_def)
    from timed_loop_Inl [OF tl [unfolded Inl e1 w1]] obtain os where
      err: "err = RuntimeError (none_message name)" and
      w': "w' = ?w0\<lparr>trace := trace ?w0 @ timed_events nm os @ [Clock_read, Invoked nm None]\<rparr>"
      by blast
    have "clean (map (Invoked nm) ws @ timed_events nm os)"
      by (simp add: clean_append)
    then have "aborted nm ((map (Invoked nm) ws @ timed_events nm os) @ [Clock_read, Invoked nm None])"
      unfolding aborted_def by blast
    moreover have "w' = w\<lparr>trace := trace w
        @ (map (Invoked nm) ws @ timed_events nm os) @ [Clock_read, Invoked nm None]\<rparr>"
      using w' by simp
    ultimately show ?thesis using err by blast
  next
    case (Inr tms)
    with assms ws(2) tl have "err = ZeroDivisionError" and w1: "w1 = w'"
      by (auto simp: run_case_def split: if_splits)
    moreover from timed_loop_Inr [OF tl [unfolded Inr w1]] obtain os where
      "w' = ?w0\<lparr>trace := trace ?w0 @ timed_events nm os\<rparr>" by blast
    then have "w' = w\<lparr>trace := trace w @ (map (Invoked nm) ws @ timed_events nm os)\<rparr>"
      by simp
    moreover have "clean (map (Invoked nm) ws @ timed_events nm os)"
      by (simp add: clean_append)
    ultimately show ?thesis by blast
  qed
qed

lemma run_rounds_Inr_clean:
  assumes "run_rounds e name (invoke e nm df) iters n avgs w = (Inr avgs', w')"
  shows "\<exists>t. clean t \<and> w' = w\<lparr>trace := trace w @ t\<rparr> \<and> length avgs' = length avgs + n"
proof -
  from run_rounds_Inr [OF assms] obtain blocks where b: "length blocks = n"
    "\<forall>b \<in> set blocks. round_events nm (nat iters) b"
    "w' = w\<lparr>trace := trace w @ concat blocks\<rparr>"
    "avgs' = avgs @ map (\<lambda>r. round_mean e (nat iters)
                               (n_clock_reads (trace w) + 2 * nat iters * r)) [0..<n]"
    by blast
  from b(2) have "clean (concat blocks)" by (intro clean_concat) (blast intro: clean_round)
  moreover have "length avgs' = length avgs + n" using b(4) by simp
  ultimately show ?thesis using b(3) by blast
qed

lemma run_rounds_Inl:
  "run_rounds e name (invoke e nm df) iters n avgs w = (Inl err, w') \<Longrightarrow>
   \<exists>t. w' = w\<lparr>trace := trace w @ t\<rparr> \<and>
     ((err = ZeroDivisionError \<and> clean t) \<or>
      (err = RuntimeError (none_message name) \<and> aborted nm t))"
proof (induction n arbitrary: avgs w)
  case 0
  then show ?case by simp
next
  case (Suc n)
  obtain r w1 where rc: "run_case e name (invoke e nm df) iters w = (r, w1)"
    by (cases "run_case e name (invoke e nm df) iters w") blast
  show ?case
  proof (cases r)
    case (Inl err1)
    with Suc.prems rc have "err1 = err" "w1 = w'" by simp_all
    with rc Inl show ?thesis using run_case_Inl by blast
  next
    case (Inr avg)
    with Suc.prems rc have
      rest: "run_rounds e name (invoke e nm df) iters n (avgs @ [avg]) w1 = (Inl err, w')"
      by simp
    from run_case_Inr [OF rc [unfolded Inr]] obtain t where t: "round_events nm (nat iters) t"
      and w1: "w1 = w\<lparr>trace := trace w @ t\<rparr>" by blast
    from Suc.IH [OF rest] obtain u where u: "w' = w1\<lparr>trace := trace w1 @ u\<rparr>"
      "(err = ZeroDivisionError \<and> clean u) \<or>
       (err = RuntimeError (none_message name) \<and> aborted nm u)"
      by blast
    have "w' = w\<lparr>trace := trace w @ (t @ u)\<rparr>" using u(1) w1 by simp
    moreover have "(err = ZeroDivisionError \<and> clean (t @ u)) \<or>
       (err = RuntimeError (none_message name) \<and> aborted nm (t @ u))"
      using u(2) clean_round [OF t] by (auto intro: clean_append aborted_prepend)
    ultimately show ?thesis by blast
  qed
qed

subsection \<open>The loop over the cases\<close>

lemma results_of_Nil [simp]: "results_of a [] []"
  by (simp add: results_of_def)

lemma results_of_Cons:
  "results_of a cs rs \<Longrightarrow> length ras = nat (arg_rounds a) \<Longrightarrow>
   results_of a (c # cs)
     (\<lparr>res_case = case_name c, res_dataset = case_dataset c, res_avg_ms = median ras,
       res_round_averages = ras\<rparr> # rs)"
  by (simp add: results_of_def)

lemma run_cases_Inr:
  "run_cases e ds a cs results w = (Inr rs, w') \<Longrightarrow>
   \<exists>t new. clean t \<and> w' = w\<lparr>trace := trace w @ t\<rparr> \<and> rs = results @ new \<and>
     results_of a cs new"
proof (induction cs arbitrary: results w)
  case Nil
  then show ?case by (intro exI [of _ "[]"]) simp
next
  case (Cons c cs)
  from Cons.prems obtain df where df: "map_of ds (case_dataset c) = Some df"
    by (cases "map_of ds (case_dataset c)") simp_all
  obtain r w1 where rr: "run_rounds e (case_name c) (invoke e (case_name c) df) (arg_iters a)
      (nat (arg_rounds a)) [] w = (r, w1)"
    by (cases "run_rounds e (case_name c) (invoke e (case_name c) df) (arg_iters a)
      (nat (arg_rounds a)) [] w") blast
  with Cons.prems df obtain ras where r: "r = Inr ras"
    by (cases r) simp_all
  let ?res = "\<lparr>res_case = case_name c, res_dataset = case_dataset c,
      res_avg_ms = median ras, res_round_averages = ras\<rparr>"
  from Cons.prems df rr r have
    rest: "run_cases e ds a cs (results @ [?res]) w1 = (Inr rs, w')" by simp
  from run_rounds_Inr_clean [OF rr [unfolded r]] obtain t where t: "clean t"
    "w1 = w\<lparr>trace := trace w @ t\<rparr>" "length ras = nat (arg_rounds a)" by auto
  from Cons.IH [OF rest] obtain u new where u: "clean u" "w' = w1\<lparr>trace := trace w1 @ u\<rparr>"
    "rs = (results @ [?res]) @ new" "results_of a cs new" by blast
  have "clean (t @ u)" using t(1) u(1) by (rule clean_append)
  moreover have "w' = w\<lparr>trace := trace w @ (t @ u)\<rparr>" using t(2) u(2) by simp
  moreover have "rs = results @ (?res # new)" using u(3) by simp
  moreover have "results_of a (c # cs) (?res # new)"
    using u(4) t(3) by (rule results_of_Cons)
  ultimately show ?case by blast
qed

lemma run_cases_Inl:
  "run_cases e ds a cs results w = (Inl err, w') \<Longrightarrow>
   \<exists>t. w' = w\<lparr>trace := trace w @ t\<rparr> \<and>
     (((err = ZeroDivisionError \<or> (\<exists>k. err = KeyError k)) \<and> clean t) \<or>
      (\<exists>nm. err = RuntimeError (none_message nm) \<and> aborted nm t))"
proof (induction cs arbitrary: results w)
  case Nil
  then show ?case by simp
next
  case (Cons c cs)
  show ?case
  proof (cases "map_of ds (case_dataset c)")
    case None
    with Cons.prems have "err = KeyError (case_dataset c)" "w' = w" by simp_all
    then have "w' = w\<lparr>trace := trace w @ []\<rparr>" "\<exists>k. err = KeyError k" by simp_all
    then show ?thesis using clean_Nil by blast
  next
    case (Some df)
    obtain r w1 where rr: "run_rounds e (case_name c) (invoke e (case_name c) df) (arg_iters a)
        (nat (arg_rounds a)) [] w = (r, w1)"
      by (cases "run_rounds e (case_name c) (invoke e (case_name c) df) (arg_iters a)
        (nat (arg_rounds a)) [] w") blast
    show ?thesis
    proof (cases r)
      case (Inl err1)
      with Cons.prems Some rr have "err1 = err" "w1 = w'" by simp_all
      with rr Inl show ?thesis using run_rounds_Inl by blast
    next
      case (Inr ras)
      let ?res = "\<lparr>res_case = case_name c, res_dataset = case_dataset c,
          res_avg_ms = median ras, res_round_averages = ras\<rparr>"
      from Cons.prems Some rr Inr have
        rest: "run_cases e ds a cs (results @ [?res]) w1 = (Inl err, w')" by simp
      from run_rounds_Inr_clean [OF rr [unfolded Inr]] obtain t where t: "clean t"
        "w1 = w\<lparr>trace := trace w @ t\<rparr>" by auto
      from Cons.IH [OF rest] obtain u where u: "w' = w1\<lparr>trace := trace w1 @ u\<rparr>"
        "((err = ZeroDivisionError \<or> (\<exists>k. err = KeyError k)) \<and> clean u) \<or>
         (\<exists>nm. err = RuntimeError (none_message nm) \<and> aborted nm u)" by blast
      have "w' = w\<lparr>trace := trace w @ (t @ u)\<rparr>" using t(2) u(1) by simp
      moreover have "((err = ZeroDivisionError \<or> (\<exists>k. err = KeyError k)) \<and> clean (t @ u)) \<or>
         (\<exists>nm. err = RuntimeError (none_message nm) \<and> aborted nm (t @ u))"
        using u(2) t(1) by (auto intro: clean_append aborted_prepend)
      ultimately show ?thesis by blast
    qed
  qed
qed

subsection \<open>The whole run\<close>

lemma main_eq:
  "main e a w =
     (case run_cases e (main_datasets a) a cases [] (main_start a w) of
        (Inl err, w1) \<Rightarrow> (Inl err, w1)
      | (Inr results, w1) \<Rightarrow>
          (if py_dirname (arg_json_out a) = [] then (Inl (FileNotFoundError []), w1)
           else if \<not> fs_ok e (arg_json_out a) then (Inl (OSError (arg_json_out a)), w1)
           else (Inr (),
                 w1\<lparr>written := written w1 @ [(arg_json_out a, make_payload e a results)],
                    stdout := stdout w1 @ report_lines a results\<rparr>)))"
  by (simp add: main_def build_dataset_eq main_datasets_def main_start_def make_payload_def
      Let_def numeral_3_eq_3 split: prod.split sum.split)

lemma main_start_simps [simp]:
  "trace (main_start a w) = trace w" "written (main_start a w) = written w"
  "stdout (main_start a w) = stdout w"
  by (simp_all add: main_start_def)

lemma main_Inr:
  assumes "main e a w = (Inr u, w')"
  shows "\<exists>t rs. clean t \<and> trace w' = trace w @ t \<and> results_of a cases rs \<and>
     written w' = written w @ [(arg_json_out a, make_payload e a rs)] \<and>
     stdout w' = stdout w @ report_lines a rs \<and>
     py_dirname (arg_json_out a) \<noteq> [] \<and> fs_ok e (arg_json_out a)"
proof -
  obtain r w1 where rc: "run_cases e (main_datasets a) a cases [] (main_start a w) = (r, w1)"
    by (cases "run_cases e (main_datasets a) a cases [] (main_start a w)") blast
  note m = main_eq [of e a w, unfolded rc]
  from assms m obtain rs where r: "r = Inr rs" by (cases r) simp_all
  from assms m r have ok: "py_dirname (arg_json_out a) \<noteq> []" "fs_ok e (arg_json_out a)"
    and w': "w' = w1\<lparr>written := written w1 @ [(arg_json_out a, make_payload e a rs)],
                    stdout := stdout w1 @ report_lines a rs\<rparr>"
    by (auto split: if_splits)
  from run_cases_Inr [OF rc [unfolded r]] obtain t new where t: "clean t"
    "w1 = main_start a w\<lparr>trace := trace (main_start a w) @ t\<rparr>" "rs = [] @ new" "results_of a cases new" by blast
  have "trace w' = trace w @ t" "written w' = written w @ [(arg_json_out a, make_payload e a rs)]"
    "stdout w' = stdout w @ report_lines a rs"
    using w' t(2) by simp_all
  moreover have "results_of a cases rs" using t(3,4) by simp
  ultimately show ?thesis using t(1) ok by blast
qed

lemma main_Inl:
  assumes "main e a w = (Inl err, w')"
  shows "written w' = written w \<and> stdout w' = stdout w \<and>
    (\<exists>t. trace w' = trace w @ t \<and>
       ((\<exists>nm. err = RuntimeError (none_message nm) \<and> aborted nm t) \<or>
        ((\<forall>m. err \<noteq> RuntimeError m) \<and> clean t)))"
proof -
  obtain r w1 where rc: "run_cases e (main_datasets a) a cases [] (main_start a w) = (r, w1)"
    by (cases "run_cases e (main_datasets a) a cases [] (main_start a w)") blast
  note m = main_eq [of e a w, unfolded rc]
  show ?thesis
  proof (cases r)
    case (Inl err1)
    with assms m have "err1 = err" "w1 = w'" by simp_all
    with rc Inl have "run_cases e (main_datasets a) a cases [] (main_start a w) = (Inl err, w')" by simp
    from run_cases_Inl [OF this] obtain t where t: "w' = main_start a w\<lparr>trace := trace (main_start a w) @ t\<rparr>"
      "((err = ZeroDivisionError \<or> (\<exists>k. err = KeyError k)) \<and> clean t) \<or>
       (\<exists>nm. err = RuntimeError (none_message nm) \<and> aborted nm t)" by blast
    have "written w' = written w" "stdout w' = stdout w" "trace w' = trace w @ t"
      using t(1) by simp_all
    moreover have "(\<exists>nm. err = RuntimeError (none_message nm) \<and> aborted nm t) \<or>
        ((\<forall>m. err \<noteq> RuntimeError m) \<and> clean t)"
      using t(2) by auto
    ultimately show ?thesis by blast
  next
    case (Inr rs)
    with assms m have w1: "w1 = w'"
      and err: "err = FileNotFoundError [] \<or> err = OSError (arg_json_out a)"
      by (auto split: if_splits)
    from run_cases_Inr [OF rc [unfolded Inr]] obtain t where t: "clean t"
      "w1 = main_start a w\<lparr>trace := trace (main_start a w) @ t\<rparr>" by blast
    have "written w' = written w" "stdout w' = stdout w" "trace w' = trace w @ t"
      using t(2) w1 by simp_all
    moreover have "\<forall>m. err \<noteq> RuntimeError m" using err by auto
    ultimately show ?thesis using t(1) by blast
  qed
qed

subsection \<open>Runs on concrete inputs\<close>

lemmas run_defs = main_def build_dataset_eq py_range_def cases_def run_case_def invoke_def
  perf_counter_def world0_def args_small_def py_dirname_def n_invocations_def n_clock_reads_def
  numeral_3_eq_3 Let_def

lemma dirname_small: "py_dirname ''out/pandas.json'' = ''out''"
  by (simp add: py_dirname_def)

lemma main_steady_small: "fst (main env_steady args_small world0) = Inr ()"
  by (simp add: run_defs env_steady_def)

lemma main_warm_none:
  "fst (main env_warm_none args_small world0) = Inr ()"
  "hd (trace (snd (main env_warm_none args_small world0))) = Invoked ''groupby_mean'' None"
  "map fst (written (snd (main env_warm_none args_small world0))) = [''out/pandas.json'']"
  by (simp_all add: run_defs env_steady_def env_warm_none_def)

lemma main_timed_none:
  "main env_timed_none args_small world0 =
     (Inl (RuntimeError (none_message ''groupby_mean'')),
      world0\<lparr>trace := [Invoked ''groupby_mean'' (Some 5), Invoked ''groupby_mean'' (Some 5),
          Invoked ''groupby_mean'' (Some 5), Clock_read, Invoked ''groupby_mean'' None],
        cells := [42, 42, 42]\<rparr>)"
  by (simp add: run_defs env_steady_def env_timed_none_def)

lemma main_neg_rounds:
  "fst (main env_steady args_neg_rounds world0) = Inr ()"
  "res_round_averages (hd (p_results (snd (last (written
      (snd (main env_steady args_neg_rounds world0))))))) = []"
  by (simp_all add: run_defs env_steady_def args_neg_rounds_def)

lemma rounds_steady:
  "run_rounds env_steady ''groupby_mean'' (invoke env_steady ''groupby_mean'' []) 1 2 [] world0 =
    (Inr [1, 5],
     world0\<lparr>trace := [Invoked ''groupby_mean'' (Some 5), Invoked ''groupby_mean'' (Some 5),
        Invoked ''groupby_mean'' (Some 5), Clock_read, Invoked ''groupby_mean'' (Some 5), Clock_read,
        Invoked ''groupby_mean'' (Some 5), Invoked ''groupby_mean'' (Some 5),
        Invoked ''groupby_mean'' (Some 5), Clock_read, Invoked ''groupby_mean'' (Some 5),
        Clock_read]\<rparr>)"
  by (simp add: run_defs env_steady_def numeral_2_eq_2)

subsection \<open>Counting the invocations; runs with no round\<close>

lemma n_invocations_simps [simp]:
  "n_invocations [] = 0"
  "n_invocations (Clock_read # t) = n_invocations t"
  "n_invocations (Invoked nm out # t) = Suc (n_invocations t)"
  by (simp_all add: n_invocations_def)

lemma n_invocations_invoked [simp]: "n_invocations (map (Invoked nm) ws) = length ws"
  by (induction ws) simp_all

lemma n_invocations_timed [simp]: "n_invocations (timed_events nm os) = length os"
  by (induction os) (simp_all add: timed_events_def)

lemma round_counts:
  assumes "round_events nm n b"
  shows "n_invocations b = 3 + n" and "length (timed_outs False b) = n"
  using assms by (auto simp: round_events_def timed_outs_append)

lemma blocks_counts:
  "\<forall>b \<in> set blocks. round_events nm n b \<Longrightarrow>
   n_invocations (concat blocks) = (3 + n) * length blocks \<and>
   length (timed_outs False (concat blocks)) = n * length blocks"
proof (induction blocks)
  case Nil
  show ?case by simp
next
  case (Cons b blocks)
  then have b: "round_events nm n b" by simp
  have "timed_outs False (b @ concat blocks) = timed_outs False b @ timed_outs False (concat blocks)"
    using b by (simp add: timed_outs_append)
  with Cons round_counts [OF b] show ?case by simp
qed

lemma n_warmups_blocks:
  assumes "\<forall>b \<in> set blocks. round_events nm n b"
  shows "n_warmups (concat blocks) = 3 * length blocks"
  using blocks_counts [OF assms] by (simp add: n_warmups_def algebra_simps)

lemma run_cases_no_rounds:
  "nat (arg_rounds a) = 0 \<Longrightarrow> \<forall>c \<in> set cs. map_of datasets (case_dataset c) \<noteq> None \<Longrightarrow>
   run_cases e datasets a cs results w =
     (Inr (results @ map (\<lambda>c. \<lparr>res_case = case_name c, res_dataset = case_dataset c,
                                  res_avg_ms = median [], res_round_averages = []\<rparr>) cs), w)"
  by (induction cs arbitrary: results) auto

lemma cases_datasets: "\<forall>c \<in> set cases. map_of (main_datasets a) (case_dataset c) \<noteq> None"
  by (simp add: cases_def main_datasets_def)

lemma length_cases: "length cases = 10"
  by (simp add: cases_def)

lemma none_message_inject [simp]: "none_message nm = none_message nm' \<longleftrightarrow> nm = nm'"
  by (simp add: none_message_def)

lemma main_no_rounds:
  assumes "nat (arg_rounds a) = 0"
  defines "rs \<equiv> map (\<lambda>c. \<lparr>res_case = case_name c, res_dataset = case_dataset c,
                            res_avg_ms = median [], res_round_averages = []\<rparr>) cases"
  shows "main e a w =
     (if py_dirname (arg_json_out a) = [] then (Inl (FileNotFoundError []), main_start a w)
      else if \<not> fs_ok e (arg_json_out a) then (Inl (OSError (arg_json_out a)), main_start a w)
      else (Inr (), main_start a w\<lparr>written := written w @ [(arg_json_out a, make_payload e a rs)],
                 stdout := stdout w @ report_lines a rs\<rparr>))"
  unfolding main_eq rs_def
  by (simp add: run_cases_no_rounds [OF assms(1) cases_datasets])

subsection \<open>The payload\<close>

text \<open>
  Claim C9. When the run completes, the payload that is written has one result for each case
  of the fixed case list, in the order of that list (names and datasets), and its field
  \<open>cases\<close> is the number of results, which is 10.
\<close>

theorem payload_in_registration_order:
  assumes "main e a w = (Inr u, w')"
  shows "\<exists>p. written w' = written w @ [(arg_json_out a, p)] \<and>
    map res_case (p_results p) = map case_name cases \<and>
    map res_dataset (p_results p) = map case_dataset cases \<and>
    map res_case (p_results p) =
      [''groupby_mean'', ''filter_sort_top100'', ''sort_top1000'', ''sort_multicol_top800'',
       ''value_counts_city'', ''value_counts_group_city_top10'',
       ''value_counts_missing_city_dropna_false'', ''groupby_missing_city_mean'',
       ''value_counts_high_card_city_top20'', ''value_counts_high_card_user_top100''] \<and>
    p_cases p = int (length (p_results p)) \<and> p_cases p = 10"
proof -
  from main_Inr [OF assms] obtain rs where rs: "results_of a cases rs"
    "written w' = written w @ [(arg_json_out a, make_payload e a rs)]" by blast
  from rs(1) have names: "map res_case rs = map case_name cases"
    and sets: "map res_dataset rs = map case_dataset cases"
    by (simp_all add: results_of_def)
  from names have "length rs = length cases" by (rule map_eq_imp_length_eq)
  then have len: "length rs = 10" by (simp add: length_cases)
  have "map res_case rs =
      [''groupby_mean'', ''filter_sort_top100'', ''sort_top1000'', ''sort_multicol_top800'',
       ''value_counts_city'', ''value_counts_group_city_top10'',
       ''value_counts_missing_city_dropna_false'', ''groupby_missing_city_mean'',
       ''value_counts_high_card_city_top20'', ''value_counts_high_card_user_top100'']"
    unfolding names by (simp add: cases_def)
  with names sets len rs(2) show ?thesis
    by (intro exI [of _ "make_payload e a rs"]) (simp add: make_payload_def)
qed

theorem payload_in_registration_order_witness:
  "fst (main env_steady args_small world0) = Inr () \<and>
   map res_dataset (p_results (snd (last (written (snd (main env_steady args_small world0)))))) =
     [''base'', ''base'', ''base'', ''base'', ''base'', ''base'', ''missing'', ''missing'',
      ''high_card'', ''high_card''] \<and>
   p_cases (snd (last (written (snd (main env_steady args_small world0))))) = 10"
proof -
  have "main env_steady args_small world0 = (Inr (), snd (main env_steady args_small world0))"
    using main_steady_small by (simp add: prod_eq_iff)
  from payload_in_registration_order [OF this] obtain p where
    p: "written (snd (main env_steady args_small world0)) =
          written world0 @ [(arg_json_out args_small, p)]"
      "map res_dataset (p_results p) = map case_dataset cases" "p_cases p = 10"
    by blast
  from p(1) have "snd (last (written (snd (main env_steady args_small world0)))) = p" by simp
  with p(2,3) main_steady_small show ?thesis by (simp add: cases_def)
qed

text \<open>
  Claim C10. \<open>median\<close> of the empty list is 0. With \<open>rounds = 0\<close> no operation is invoked and
  no exception of the measurement arises: every one of the 10 results has the average 0 and
  an empty list of round averages, and the run ends with the payload written, unless the
  output path itself is refused (the empty directory name, or the file system's refusal).
\<close>

theorem zero_rounds_completes:
  assumes "arg_rounds a = 0"
  shows "median [] = 0 \<and>
    (\<exists>rs. length rs = 10 \<and>
       list_all (\<lambda>r. res_avg_ms r = 0 \<and> res_round_averages r = []) rs \<and>
       trace (snd (main e a w)) = trace w \<and>
       (if py_dirname (arg_json_out a) \<noteq> [] \<and> fs_ok e (arg_json_out a)
        then fst (main e a w) = Inr () \<and>
             written (snd (main e a w)) = written w @ [(arg_json_out a, make_payload e a rs)]
        else (fst (main e a w) = Inl (FileNotFoundError []) \<or>
              fst (main e a w) = Inl (OSError (arg_json_out a))) \<and>
             written (snd (main e a w)) = written w))"
proof -
  let ?rs = "map (\<lambda>c. \<lparr>res_case = case_name c, res_dataset = case_dataset c,
                        res_avg_ms = median [], res_round_averages = []\<rparr>) cases"
  have m0: "median [] = 0" by (simp add: median_def)
  from assms have "nat (arg_rounds a) = 0" by simp
  note m = main_no_rounds [OF this, of e w]
  have "length ?rs = 10" by (simp add: length_cases)
  moreover have "list_all (\<lambda>r. res_avg_ms r = 0 \<and> res_round_averages r = []) ?rs"
    by (simp add: list_all_iff m0)
  moreover have "trace (snd (main e a w)) = trace w" by (simp add: m)
  moreover have "if py_dirname (arg_json_out a) \<noteq> [] \<and> fs_ok e (arg_json_out a)
        then fst (main e a w) = Inr () \<and>
             written (snd (main e a w)) = written w @ [(arg_json_out a, make_payload e a ?rs)]
        else (fst (main e a w) = Inl (FileNotFoundError []) \<or>
              fst (main e a w) = Inl (OSError (arg_json_out a))) \<and>
             written (snd (main e a w)) = written w"
    by (simp add: m)
  ultimately show ?thesis using m0 by blast
qed

theorem zero_rounds_completes_witness:
  "fst (main env_steady args_no_rounds world0) = Inr () \<and>
   trace (snd (main env_steady args_no_rounds world0)) = [] \<and>
   length (p_results (snd (last (written (snd (main env_steady args_no_rounds world0)))))) = 10 \<and>
   list_all (\<lambda>r. res_avg_ms r = 0 \<and> res_round_averages r = [])
     (p_results (snd (last (written (snd (main env_steady args_no_rounds world0))))))"
proof -
  have a: "arg_rounds args_no_rounds = 0" by (simp add: args_no_rounds_def)
  have ok: "py_dirname (arg_json_out args_no_rounds) \<noteq> [] \<and>
            fs_ok env_steady (arg_json_out args_no_rounds)"
    by (simp add: args_no_rounds_def args_small_def dirname_small env_steady_def)
  from zero_rounds_completes [OF a, of env_steady world0] ok obtain rs where
    rs: "length rs = 10" "list_all (\<lambda>r. res_avg_ms r = 0 \<and> res_round_averages r = []) rs"
      "trace (snd (main env_steady args_no_rounds world0)) = trace world0"
      "fst (main env_steady args_no_rounds world0) = Inr ()"
      "written (snd (main env_steady args_no_rounds world0)) =
         written world0 @ [(arg_json_out args_no_rounds, make_payload env_steady args_no_rounds rs)]"
    by auto
  from rs(5) have "p_results (snd (last (written (snd (main env_steady args_no_rounds world0))))) = rs"
    by (simp add: make_payload_def)
  with rs(1-4) show ?thesis by (simp add: world0_def)
qed

subsection \<open>The warmup\<close>

text \<open>
  Claim C3, as the code has it. The warmup belongs to \<open>run_case\<close>, which the loop over the
  rounds calls once for each round: when that loop completes for a case, its events are one
  block for each round, every block being exactly 3 invocations outside any clock reading
  followed by the timed invocations, so the case has \<open>3 * rounds\<close> warmup invocations. The
  average of round \<open>r\<close> is the mean of the durations between the clock readings of that
  block only, and there is one average for each round. In the payload of a completed run every
  result has \<open>nat rounds\<close> round averages, that is none when \<open>rounds\<close> is negative.
\<close>

theorem warmup_each_round:
  "(run_rounds e nm (invoke e nm df) iters n [] w = (Inr avgs, w') \<longrightarrow>
      length avgs = n \<and>
      (\<exists>blocks. length blocks = n \<and> (\<forall>b \<in> set blocks. round_events nm (nat iters) b) \<and>
         trace w' = trace w @ concat blocks \<and> n_warmups (concat blocks) = 3 * n) \<and>
      (\<forall>r < n. avgs ! r =
         round_mean e (nat iters) (n_clock_reads (trace w) + 2 * nat iters * r))) \<and>
   (main e a w = (Inr u, w2) \<longrightarrow>
      (\<exists>rs. written w2 = written w @ [(arg_json_out a, make_payload e a rs)] \<and>
         list_all (\<lambda>r. length (res_round_averages r) = nat (arg_rounds a)) rs))"
proof (intro conjI impI)
  assume run: "run_rounds e nm (invoke e nm df) iters n [] w = (Inr avgs, w')"
  from run_rounds_Inr [OF run] obtain blocks where b: "length blocks = n"
    "\<forall>b \<in> set blocks. round_events nm (nat iters) b"
    "w' = w\<lparr>trace := trace w @ concat blocks\<rparr>"
    "avgs = [] @ map (\<lambda>r. round_mean e (nat iters)
                            (n_clock_reads (trace w) + 2 * nat iters * r)) [0..<n]"
    by blast
  from b(4) show "length avgs = n" by simp
  from b(4) show "\<forall>r < n. avgs ! r =
      round_mean e (nat iters) (n_clock_reads (trace w) + 2 * nat iters * r)" by simp
  from n_warmups_blocks [OF b(2)] b(1) have "n_warmups (concat blocks) = 3 * n" by simp
  moreover from b(3) have "trace w' = trace w @ concat blocks" by simp
  ultimately show "\<exists>blocks. length blocks = n \<and>
      (\<forall>b \<in> set blocks. round_events nm (nat iters) b) \<and>
      trace w' = trace w @ concat blocks \<and> n_warmups (concat blocks) = 3 * n"
    using b(1,2) by blast
next
  assume "main e a w = (Inr u, w2)"
  from main_Inr [OF this] obtain rs where rs: "results_of a cases rs"
    "written w2 = written w @ [(arg_json_out a, make_payload e a rs)]" by blast
  from rs(1) have "list_all (\<lambda>r. length (res_round_averages r) = nat (arg_rounds a)) rs"
    by (simp add: results_of_def list_all_iff)
  with rs(2) show "\<exists>rs. written w2 = written w @ [(arg_json_out a, make_payload e a rs)] \<and>
      list_all (\<lambda>r. length (res_round_averages r) = nat (arg_rounds a)) rs" by blast
qed

theorem warmup_each_round_witness:
  "n_warmups (trace (snd (run_rounds env_steady ''groupby_mean''
      (invoke env_steady ''groupby_mean'' []) 1 2 [] world0))) = 6 \<and>
   [1, 5] ! 1 = round_mean env_steady 1 2 \<and>
   list_all (\<lambda>r. length (res_round_averages r) = 1)
     (p_results (snd (last (written (snd (main env_steady args_small world0))))))"
proof -
  let ?w = "snd (run_rounds env_steady ''groupby_mean''
      (invoke env_steady ''groupby_mean'' []) 1 2 [] world0)"
  let ?m = "snd (main env_steady args_small world0)"
  have run: "run_rounds env_steady ''groupby_mean'' (invoke env_steady ''groupby_mean'' []) 1 2 []
      world0 = (Inr [1, 5], ?w)"
    using rounds_steady by simp
  have mn: "main env_steady args_small world0 = (Inr (), ?m)"
    using main_steady_small by (simp add: prod_eq_iff)
  note th = warmup_each_round [of env_steady "''groupby_mean''" "[]" 1 2 world0 "[1, 5]" ?w
      args_small "()" ?m]
  from th run obtain blocks where "trace ?w = trace world0 @ concat blocks"
    "n_warmups (concat blocks) = 3 * 2" by blast
  then have a: "n_warmups (trace ?w) = 6" by (simp add: world0_def)
  from th run have avgs: "\<forall>r < 2. [1, 5] ! r =
      round_mean env_steady (nat 1) (n_clock_reads (trace world0) + 2 * nat 1 * r)" by blast
  have b: "[1, 5] ! 1 = round_mean env_steady 1 2"
    using avgs [rule_format, of 1] by (simp add: world0_def numeral_2_eq_2)
  from th mn obtain rs where rs: "written ?m =
      written world0 @ [(arg_json_out args_small, make_payload env_steady args_small rs)]"
    "list_all (\<lambda>r. length (res_round_averages r) = nat (arg_rounds args_small)) rs" by blast
  from rs(1) have "p_results (snd (last (written ?m))) = rs" by (simp add: make_payload_def)
  with rs(2) have c: "list_all (\<lambda>r. length (res_round_averages r) = 1)
      (p_results (snd (last (written ?m))))" by (simp add: args_small_def)
  from a b c show ?thesis by blast
qed

theorem warmup_once_per_case_counterexample:
  "trace (snd (run_rounds env_steady ''groupby_mean''
      (invoke env_steady ''groupby_mean'' []) 1 2 [] world0)) =
     [Invoked ''groupby_mean'' (Some 5), Invoked ''groupby_mean'' (Some 5),
      Invoked ''groupby_mean'' (Some 5), Clock_read, Invoked ''groupby_mean'' (Some 5), Clock_read,
      Invoked ''groupby_mean'' (Some 5), Invoked ''groupby_mean'' (Some 5),
      Invoked ''groupby_mean'' (Some 5), Clock_read, Invoked ''groupby_mean'' (Some 5),
      Clock_read] \<and>
   n_warmups (trace (snd (run_rounds env_steady ''groupby_mean''
      (invoke env_steady ''groupby_mean'' []) 1 2 [] world0))) = 6 \<and>
   arg_rounds args_neg_rounds = - 1 \<and>
   fst (main env_steady args_neg_rounds world0) = Inr () \<and>
   length (res_round_averages (hd (p_results (snd (last (written
      (snd (main env_steady args_neg_rounds world0)))))))) = 0"
proof -
  have "arg_rounds args_neg_rounds = - 1" by (simp add: args_neg_rounds_def args_small_def)
  then show ?thesis by (simp add: rounds_steady main_neg_rounds n_warmups_def)
qed

subsection \<open>A missing result\<close>

text \<open>
  Claim C8, as the code has it. Only the result of a timed invocation is tested: the results of
  the warmup invocations are thrown away unseen. A run has a timed invocation that returned
  \<open>None\<close> exactly when it ends with the \<open>RuntimeError\<close> naming the case; that invocation
  is then the last event of the run and the only timed one without a result (nothing is
  invoked again), and nothing has been written or printed. Whatever the error a run ends with,
  nothing has been written or printed.
\<close>

theorem fatal_on_timed_none:
  assumes "main e a w = (res, w')"
  shows "\<exists>t. trace w' = trace w @ t \<and>
    (None \<in> set (timed_outs False t) \<longleftrightarrow> (\<exists>nm. res = Inl (RuntimeError (none_message nm)))) \<and>
    (\<forall>nm. res = Inl (RuntimeError (none_message nm)) \<longrightarrow>
       last t = Invoked nm None \<and> count_list (timed_outs False t) None = 1) \<and>
    (res \<noteq> Inr () \<longrightarrow> written w' = written w \<and> stdout w' = stdout w)"
proof (cases res)
  case (Inr u)
  with assms have "main e a w = (Inr u, w')" by simp
  from main_Inr [OF this] obtain t where "clean t" "trace w' = trace w @ t" by blast
  with Inr show ?thesis by (auto simp: clean_def)
next
  case (Inl err)
  with assms have "main e a w = (Inl err, w')" by simp
  from main_Inl [OF this] obtain t where same: "written w' = written w" "stdout w' = stdout w"
    and t: "trace w' = trace w @ t"
    and kind: "(\<exists>nm. err = RuntimeError (none_message nm) \<and> aborted nm t) \<or>
        ((\<forall>m. err \<noteq> RuntimeError m) \<and> clean t)"
    by blast
  from kind show ?thesis
  proof
    assume "\<exists>nm. err = RuntimeError (none_message nm) \<and> aborted nm t"
    then obtain nm where nm: "err = RuntimeError (none_message nm)" "aborted nm t" by blast
    from aborted_last [OF nm(2)] nm(1) Inl same t show ?thesis
      by (intro exI [of _ t]) auto
  next
    assume "(\<forall>m. err \<noteq> RuntimeError m) \<and> clean t"
    with Inl same t show ?thesis
      by (intro exI [of _ t]) (auto simp: clean_def)
  qed
qed

theorem fatal_on_timed_none_witness:
  "None \<in> set (timed_outs False (trace (snd (main env_timed_none args_small world0)))) \<and>
   last (trace (snd (main env_timed_none args_small world0))) = Invoked ''groupby_mean'' None \<and>
   written (snd (main env_timed_none args_small world0)) = [] \<and>
   stdout (snd (main env_timed_none args_small world0)) = []"
proof -
  let ?res = "Inl (RuntimeError (none_message ''groupby_mean''))"
  let ?w = "snd (main env_timed_none args_small world0)"
  have m: "main env_timed_none args_small world0 = (?res, ?w)"
    using main_timed_none by simp
  from fatal_on_timed_none [OF m] obtain t where t: "trace ?w = trace world0 @ t"
    "None \<in> set (timed_outs False t) \<longleftrightarrow>
       (\<exists>nm. ?res = (Inl (RuntimeError (none_message nm)) :: py_error + unit))"
    "\<forall>nm. ?res = (Inl (RuntimeError (none_message nm)) :: py_error + unit) \<longrightarrow>
       last t = Invoked nm None \<and> count_list (timed_outs False t) None = 1"
    "?res \<noteq> (Inr () :: py_error + unit) \<longrightarrow> written ?w = written world0 \<and> stdout ?w = stdout world0"
    by blast
  from t(1) have tr: "trace ?w = t" by (simp add: world0_def)
  from t(2) have "None \<in> set (timed_outs False t)" by blast
  moreover from t(3) have "last t = Invoked ''groupby_mean'' None" by blast
  moreover from t(4) have "written ?w = []" "stdout ?w = []" by (simp_all add: world0_def)
  ultimately show ?thesis using tr by simp
qed

theorem warmup_none_counterexample:
  "fst (main env_warm_none args_small world0) = Inr () \<and>
   hd (trace (snd (main env_warm_none args_small world0))) = Invoked ''groupby_mean'' None \<and>
   map fst (written (snd (main env_warm_none args_small world0))) = [''out/pandas.json'']"
  by (simp add: main_warm_none)

end
